theory Spec2Isabelle
  imports Main
begin

section \<open>Wire messages\<close>

text \<open>
  The interface \<open>Message\<close> of \<open>webview/services/websocket.ts\<close>. Every field but
  \<open>type\<close> is optional: \<open>None\<close> is JavaScript's \<open>undefined\<close>. Fields typed \<open>any\<close>
  in the source and kept opaque by the code (\<open>data\<close>, \<open>input_data\<close>, \<open>output\<close>) are
  carried as their JSON text. The \<open>payload\<close> is read by the webview as a plan
  (\<open>refined_goal\<close>, \<open>steps\<close>), as a step (\<open>id\<close>, \<open>title\<close>, \<open>description\<close>) or as a
  step update (\<open>id\<close>, \<open>status\<close>); the record \<open>payload\<close> has every field the code reads,
  each optional, and \<open>goal\<close>, which the code stores without reading. The fields
  \<open>m_title\<close>, \<open>m_description\<close>, \<open>m_refined_goal\<close> and \<open>m_steps\<close> are the ones the
  webview reads through \<open>(msg as any).payload || msg\<close> when there is no payload.
  Every value read from a payload is taken to be a string or \<open>undefined\<close>, and a
  payload to be an object or absent, as the interfaces of the source declare them.
\<close>

record plan_step =
  ps_id :: "string option"
  ps_title :: "string option"
  ps_description :: "string option"
  ps_status :: "string option"

record payload =
  p_id :: "string option"
  p_title :: "string option"
  p_description :: "string option"
  p_status :: "string option"
  p_refined_goal :: "string option"
  p_goal :: "string option"
  p_steps :: "plan_step list option"

record message =
  m_type :: string
  m_text :: "string option"
  m_status :: "string option"
  m_message :: "string option"
  m_message_id :: "string option"
  m_is_delta :: "bool option"
  m_id :: "string option"
  m_command :: "string option"
  m_payload :: "payload option"
  m_category :: "string option"
  m_data :: "string option"
  m_interaction_id :: "string option"
  m_step_id :: "string option"
  m_action_type :: "string option"
  m_action_label :: "string option"
  m_action_status :: "string option"
  m_tool_name :: "string option"
  m_input_data :: "string option"
  m_call_id :: "string option"
  m_output :: "string option"
  m_action :: "string option"
  m_error :: "string option"
  m_title :: "string option"
  m_description :: "string option"
  m_refined_goal :: "string option"
  m_steps :: "plan_step list option"

text \<open>The object literal \<open>{ type: t }\<close>: a message with no other field.\<close>

definition msg :: "string \<Rightarrow> message" where
  "msg t = \<lparr> m_type = t, m_text = None, m_status = None, m_message = None,
     m_message_id = None, m_is_delta = None, m_id = None, m_command = None,
     m_payload = None, m_category = None, m_data = None, m_interaction_id = None,
     m_step_id = None, m_action_type = None, m_action_label = None,
     m_action_status = None, m_tool_name = None, m_input_data = None,
     m_call_id = None, m_output = None, m_action = None, m_error = None,
     m_title = None, m_description = None, m_refined_goal = None, m_steps = None \<rparr>"

definition obj :: payload where
  "obj = \<lparr> p_id = None, p_title = None, p_description = None, p_status = None,
     p_refined_goal = None, p_goal = None, p_steps = None \<rparr>"

text \<open>
  JavaScript truthiness of an optional string: \<open>undefined\<close> and the empty string are
  falsy. \<open>a || b\<close> is \<open>js_or a b\<close>.
\<close>

definition truthy :: "string option \<Rightarrow> bool" where
  "truthy v = (case v of None \<Rightarrow> False | Some s \<Rightarrow> s \<noteq> [])"

definition js_or :: "string option \<Rightarrow> string option \<Rightarrow> string option" where
  "js_or a b = (if truthy a then a else b)"

text \<open>\<open>a || 'default'\<close>, a string.\<close>

definition or_else :: "string option \<Rightarrow> string \<Rightarrow> string" where
  "or_else a d = (case a of None \<Rightarrow> d | Some s \<Rightarrow> if s = [] then d else s)"

text \<open>String conversion in a concatenation \<open>'...' + v\<close>.\<close>

definition to_string :: "string option \<Rightarrow> string" where
  "to_string v = (case v of None \<Rightarrow> ''undefined'' | Some s \<Rightarrow> s)"

section \<open>Transport: \<open>WebSocketClient\<close>\<close>

text \<open>
  The state of one \<open>WebSocketClient\<close>. The browser's \<open>WebSocket\<close> objects are kept
  in \<open>sockets\<close> by creation order, each by its \<open>readyState\<close>; \<open>ws\<close> is the index of
  the object the field \<open>this.ws\<close> refers to. \<open>connect\<close> never closes or detaches the
  socket it replaces, so older sockets stay alive with their handlers. The effects are
  logs: \<open>timers\<close> records every \<open>setTimeout\<close> call of \<open>onclose\<close> (its delay, and
  whether it is still pending), \<open>statuses\<close> every \<open>notifyStatus\<close>, \<open>wire\<close> every
  \<open>ws.send\<close> (socket and message), \<open>delivered\<close> every message handed to the
  \<open>onMessage\<close> callbacks.
\<close>

datatype ready_state = CONNECTING | OPEN | CLOSING | CLOSED

datatype conn_status = Connecting | Connected | Disconnected

record ws_client =
  ws :: "nat option"
  reconnectAttempts :: nat
  maxReconnectDelay :: nat
  sockets :: "ready_state list"
  timers :: "(nat \<times> bool) list"
  statuses :: "conn_status list"
  wire :: "(nat \<times> message) list"
  delivered :: "message list"

definition new_client :: ws_client where
  "new_client = \<lparr> ws = None, reconnectAttempts = 0, maxReconnectDelay = 10000,
     sockets = [], timers = [], statuses = [], wire = [], delivered = [] \<rparr>"

definition notifyStatus :: "conn_status \<Rightarrow> ws_client \<Rightarrow> ws_client" where
  "notifyStatus st c = c\<lparr> statuses := statuses c @ [st] \<rparr>"

text \<open>\<open>connect()\<close>: notify, then \<open>this.ws = new WebSocket(this.url)\<close>, with no guard.\<close>

definition connect :: "ws_client \<Rightarrow> ws_client" where
  "connect c =
     (let c1 = notifyStatus Connecting c
      in c1\<lparr> ws := Some (length (sockets c1)), sockets := sockets c1 @ [CONNECTING] \<rparr>)"

definition onopen :: "ws_client \<Rightarrow> ws_client" where
  "onopen c = notifyStatus Connected (c\<lparr> reconnectAttempts := 0 \<rparr>)"

text \<open>\<open>Math.min(1000 * Math.pow(2, this.reconnectAttempts), this.maxReconnectDelay)\<close>\<close>

definition reconnect_delay :: "ws_client \<Rightarrow> nat" where
  "reconnect_delay c = min (1000 * 2 ^ reconnectAttempts c) (maxReconnectDelay c)"

definition onclose :: "bool \<Rightarrow> ws_client \<Rightarrow> ws_client" where
  "onclose wasClean c =
     (let c1 = notifyStatus Disconnected c
      in if wasClean then c1
         else c1\<lparr> timers := timers c1 @ [(reconnect_delay c1, True)] \<rparr>)"

text \<open>The callback given to \<open>setTimeout\<close>: \<open>this.reconnectAttempts++; this.connect()\<close>.\<close>

definition reconnect_callback :: "ws_client \<Rightarrow> ws_client" where
  "reconnect_callback c = connect (c\<lparr> reconnectAttempts := reconnectAttempts c + 1 \<rparr>)"

definition onerror :: "ws_client \<Rightarrow> ws_client" where
  "onerror c = notifyStatus Disconnected c"

text \<open>
  \<open>onmessage\<close>: \<open>JSON.parse\<close> either yields a message, handed to every callback, or
  throws, which is caught and logged.
\<close>

definition onmessage :: "message option \<Rightarrow> ws_client \<Rightarrow> ws_client" where
  "onmessage parsed c =
     (case parsed of
        None \<Rightarrow> c
      | Some m \<Rightarrow> c\<lparr> delivered := delivered c @ [m] \<rparr>)"

definition socket_state :: "ws_client \<Rightarrow> nat \<Rightarrow> ready_state option" where
  "socket_state c i = (if i < length (sockets c) then Some (sockets c ! i) else None)"

text \<open>\<open>send(msg)\<close>: \<open>if (this.ws && this.ws.readyState === WebSocket.OPEN) this.ws.send(...)\<close>\<close>

definition send :: "message \<Rightarrow> ws_client \<Rightarrow> ws_client" where
  "send m c =
     (case ws c of
        None \<Rightarrow> c
      | Some i \<Rightarrow>
          if socket_state c i = Some OPEN then c\<lparr> wire := wire c @ [(i, m)] \<rparr> else c)"

subsection \<open>Events of the environment\<close>

text \<open>
  What can happen to a client: a caller invokes \<open>connect\<close> or \<open>send\<close>, the browser
  fires a handler of one of the sockets, or a pending timer fires. The browser changes
  the socket's \<open>readyState\<close> before it calls \<open>onopen\<close> or \<open>onclose\<close>. A socket opens
  only while connecting, delivers only while open, and closes once.
\<close>

datatype event =
    CallConnect
  | CallSend message
  | SocketOpen nat
  | SocketMessage nat "message option"
  | SocketError nat
  | SocketClose nat bool
  | TimerFired nat

fun enabled :: "ws_client \<Rightarrow> event \<Rightarrow> bool" where
  "enabled c CallConnect = True"
| "enabled c (CallSend m) = True"
| "enabled c (SocketOpen i) = (socket_state c i = Some CONNECTING)"
| "enabled c (SocketMessage i d) = (socket_state c i = Some OPEN)"
| "enabled c (SocketError i) = (i < length (sockets c) \<and> sockets c ! i \<noteq> CLOSED)"
| "enabled c (SocketClose i wasClean) = (i < length (sockets c) \<and> sockets c ! i \<noteq> CLOSED)"
| "enabled c (TimerFired k) = (k < length (timers c) \<and> snd (timers c ! k))"

fun fire :: "event \<Rightarrow> ws_client \<Rightarrow> ws_client" where
  "fire CallConnect c = connect c"
| "fire (CallSend m) c = send m c"
| "fire (SocketOpen i) c = onopen (c\<lparr> sockets := (sockets c)[i := OPEN] \<rparr>)"
| "fire (SocketMessage i d) c = onmessage d c"
| "fire (SocketError i) c = onerror c"
| "fire (SocketClose i wasClean) c = onclose wasClean (c\<lparr> sockets := (sockets c)[i := CLOSED] \<rparr>)"
| "fire (TimerFired k) c =
     reconnect_callback (c\<lparr> timers := (timers c)[k := (fst (timers c ! k), False)] \<rparr>)"

fun run :: "event list \<Rightarrow> ws_client \<Rightarrow> ws_client option" where
  "run [] c = Some c"
| "run (e # es) c = (if enabled c e then run es (fire e c) else None)"

text \<open>
  The unclean closes of a trace since its last open: \<open>streak n es\<close> continues the
  count \<open>n\<close> through the events \<open>es\<close>. After the events \<open>es\<close> of a session, the
  next unclean close is number \<open>Suc (streak 0 es)\<close> of its run of consecutive unclean
  closes with no open in between.
\<close>

fun streak :: "nat \<Rightarrow> event list \<Rightarrow> nat" where
  "streak n [] = n"
| "streak n (SocketOpen i # es) = streak 0 es"
| "streak n (SocketClose i wasClean # es) = streak (if wasClean then n else Suc n) es"
| "streak n (e # es) = streak n es"

text \<open>Connection attempts outstanding: sockets still connecting.\<close>

definition outstanding :: "ws_client \<Rightarrow> nat" where
  "outstanding c = length (filter (\<lambda>s. s = CONNECTING) (sockets c))"

text \<open>Sockets not yet closed, and timers not yet fired.\<close>

definition live :: "ws_client \<Rightarrow> nat" where
  "live c = length (filter (\<lambda>s. s \<noteq> CLOSED) (sockets c))"

definition pending :: "ws_client \<Rightarrow> nat" where
  "pending c = length (filter snd (timers c))"

text \<open>
  A session in which \<open>connect\<close> is called only while the client is idle, with no
  socket alive and no timer pending: the first call, and a manual reconnect after a
  clean close.
\<close>

fun idle_connects :: "event list \<Rightarrow> ws_client \<Rightarrow> bool" where
  "idle_connects [] c = True"
| "idle_connects (e # es) c =
     ((e \<noteq> CallConnect \<or> live c + pending c = 0) \<and> idle_connects es (fire e c))"

section \<open>Timeline reducer: the webview's \<open>App\<close>\<close>

subsection \<open>The timeline tree\<close>

text \<open>
  \<open>LogData\<close>, \<open>StepNode\<close> and \<open>InteractionNode\<close> of \<open>App.tsx\<close>. A log's payload is
  the event's payload, the whole message (for an \<open>ERROR\<close> entry) or the opaque debug
  data. A step's \<open>id\<close>, \<open>title\<close> and \<open>status\<close> are copied from untyped payloads, so
  each may be \<open>undefined\<close>.
\<close>

datatype log_payload =
    PayloadOf "payload option"
  | MessageOf message
  | DataOf "string option"

record log_data =
  l_id :: string
  l_timestamp :: string
  l_type :: string
  l_category :: "string option"
  l_payload :: log_payload

record step_node =
  s_id :: "string option"
  s_title :: "string option"
  s_status :: "string option"
  s_logs :: "log_data list"

record interaction_node =
  n_id :: string
  n_timestamp :: string
  n_title :: string
  n_steps :: "step_node list"
  n_plan :: "payload option"
  n_logs :: "log_data list"

text \<open>\<open>Array.prototype.findIndex\<close>, with \<open>None\<close> for \<open>-1\<close>.\<close>

fun findIndex :: "('a \<Rightarrow> bool) \<Rightarrow> 'a list \<Rightarrow> nat option" where
  "findIndex P [] = None"
| "findIndex P (x # xs) = (if P x then Some 0 else map_option Suc (findIndex P xs))"

text \<open>
  The second half of \<open>addToTimeline\<close>, on the copy of the target node: the log goes
  to the step \<open>step_id\<close>, created as \<open>pending\<close> when the node has none of that id, or
  to the node's own logs when there is no \<open>step_id\<close>.
\<close>

definition logInto :: "log_data \<Rightarrow> string option \<Rightarrow> interaction_node \<Rightarrow> interaction_node" where
  "logInto log step_id node =
     (if truthy step_id then
        (let currentSteps = n_steps node;
             (steps, stepIndex) =
               (case findIndex (\<lambda>s. s_id s = step_id) currentSteps of
                  None \<Rightarrow>
                    (currentSteps @ [\<lparr> s_id = step_id,
                        s_title = Some (''Step '' @ to_string step_id),
                        s_status = Some ''pending'', s_logs = [] \<rparr>],
                     length currentSteps)
                | Some j \<Rightarrow> (currentSteps, j));
             step = steps ! stepIndex
         in node\<lparr> n_steps := steps[stepIndex := step\<lparr> s_logs := s_logs step @ [log] \<rparr>] \<rparr>)
      else node\<lparr> n_logs := n_logs node @ [log] \<rparr>)"

definition addToTimeline ::
  "log_data \<Rightarrow> string option \<Rightarrow> string option \<Rightarrow> interaction_node list \<Rightarrow> interaction_node list"
where
  "addToTimeline log interaction_id step_id prev =
     (let targetId = or_else interaction_id ''SYSTEM'';
          (newTimeline, nodeIndex) =
            (case findIndex (\<lambda>n. n_id n = targetId) prev of
               None \<Rightarrow>
                 (prev @ [\<lparr> n_id = targetId, n_timestamp = l_timestamp log,
                     n_title = (if targetId = ''SYSTEM'' then ''System Events'' else ''Active Task''),
                     n_steps = [], n_plan = None, n_logs = [] \<rparr>],
                  length prev)
             | Some i \<Rightarrow> (prev, i))
      in newTimeline[nodeIndex := logInto log step_id (newTimeline ! nodeIndex)])"

text \<open>
  The step a plan step \<open>ps\<close> becomes in \<open>updateTimelinePlan\<close>: the first existing step
  of the same id with the plan's title and status, or a new step with no logs.
\<close>

definition syncStep :: "step_node list \<Rightarrow> plan_step \<Rightarrow> step_node" where
  "syncStep existingSteps ps =
     (case find (\<lambda>es. s_id es = ps_id ps) existingSteps of
        Some existing \<Rightarrow> existing\<lparr> s_title := ps_title ps, s_status := ps_status ps \<rparr>
      | None \<Rightarrow> \<lparr> s_id = ps_id ps, s_title = ps_title ps, s_status = ps_status ps, s_logs = [] \<rparr>)"

definition updateTimelinePlan ::
  "payload option \<Rightarrow> string option \<Rightarrow> interaction_node list \<Rightarrow> interaction_node list"
where
  "updateTimelinePlan plan interaction_id prev =
     (case plan of
        None \<Rightarrow> prev
      | Some pl \<Rightarrow>
          if prev = [] then prev
          else
            (let targetId = or_else interaction_id (n_id (last prev))
             in case findIndex (\<lambda>n. n_id n = targetId) prev of
                  None \<Rightarrow> prev
                | Some nodeIndex \<Rightarrow>
                    (let node = prev ! nodeIndex;
                         existingSteps = n_steps node;
                         newSteps = map (syncStep existingSteps)
                                      (case p_steps pl of None \<Rightarrow> [] | Some ss \<Rightarrow> ss)
                     in prev[nodeIndex := node\<lparr>
                          n_title := ''Task: '' @ or_else (p_refined_goal pl) ''Unknown'',
                          n_plan := Some pl,
                          n_steps := newSteps \<rparr>])))"

definition updateStepStatusInTimeline ::
  "string option \<Rightarrow> string option \<Rightarrow> string option \<Rightarrow> interaction_node list \<Rightarrow> interaction_node list"
where
  "updateStepStatusInTimeline step_id status interaction_id prev =
     map (\<lambda>node.
            if truthy interaction_id \<and> Some (n_id node) \<noteq> interaction_id then node
            else
              (case findIndex (\<lambda>s. s_id s = step_id) (n_steps node) of
                 Some stepIndex \<Rightarrow>
                   node\<lparr> n_steps :=
                     (n_steps node)[stepIndex := (n_steps node ! stepIndex)\<lparr> s_status := status \<rparr>] \<rparr>
               | None \<Rightarrow> node))
         prev"

subsection \<open>The conversational message list\<close>

text \<open>
  \<open>ChatMessage\<close> of \<open>App.tsx\<close>. The label of a tool trace is computed by
  \<open>mapToolToHuman\<close>, a rendering helper that is left uninterpreted:
  \<open>MapToolToHuman name input\<close> stands for \<open>mapToolToHuman(name, input || {})\<close>.
\<close>

datatype label = MapToolToHuman string "string option" | Label string

record plan_data =
  pd_goal :: "string option"
  pd_steps :: "plan_step list option"
  pd_isCollapsed :: "bool option"

record step_data =
  sd_id :: "string option"
  sd_title :: "string option"
  sd_description :: "string option"
  sd_status :: string
  sd_isCollapsed :: "bool option"

record tool_data =
  td_label :: "label option"
  td_name :: "string option"
  td_args :: "string option"
  td_status :: string

record action =
  a_call_id :: "string option"
  a_type :: string
  a_label :: label
  a_status :: string

record chat_message =
  c_id :: "string option"
  c_role :: string
  c_text :: "string option"
  c_type :: "string option"
  c_row_type :: "string option"
  c_plan_data :: "plan_data option"
  c_step_data :: "step_data option"
  c_tool_data :: "tool_data option"
  c_ttsStatus :: "string option"
  c_actions :: "action list option"

text \<open>The object literal \<open>{ role: r }\<close>.\<close>

definition chat :: "string \<Rightarrow> chat_message" where
  "chat r = \<lparr> c_id = None, c_role = r, c_text = None, c_type = None, c_row_type = None,
     c_plan_data = None, c_step_data = None, c_tool_data = None, c_ttsStatus = None,
     c_actions = None \<rparr>"

text \<open>\<open>prev[prev.length - 1]\<close>, \<open>undefined\<close> on the empty list.\<close>

definition lastMsg :: "'a list \<Rightarrow> 'a option" where
  "lastMsg prev = (if prev = [] then None else Some (last prev))"

definition processAgentResponse ::
  "string \<Rightarrow> bool \<Rightarrow> string option \<Rightarrow> chat_message list \<Rightarrow> chat_message list"
where
  "processAgentResponse txt isDelta ident prev =
     (case lastMsg prev of
        None \<Rightarrow> prev @ [(chat ''agent'')\<lparr> c_text := Some txt, c_type := Some ''text'', c_id := ident \<rparr>]
      | Some l \<Rightarrow>
          if isDelta \<and> c_role l = ''agent'' \<and> c_type l = Some ''text''
          then butlast prev @ [l\<lparr> c_text := Some (to_string (c_text l) @ txt),
                                   c_id := js_or ident (c_id l) \<rparr>]
          else prev @ [(chat ''agent'')\<lparr> c_text := Some txt, c_type := Some ''text'', c_id := ident \<rparr>])"

text \<open>\<open>m.actions?.[0]?.call_id\<close>\<close>

definition first_call_id :: "chat_message \<Rightarrow> string option" where
  "first_call_id m =
     (case c_actions m of None \<Rightarrow> None | Some [] \<Rightarrow> None | Some (a # _) \<Rightarrow> a_call_id a)"

definition handleAgentAction :: "message \<Rightarrow> chat_message list \<Rightarrow> chat_message list" where
  "handleAgentAction m prev =
     (if m_action_type m = Some ''tool_start'' then
        (let humanLabel =
               (if truthy (m_tool_name m)
                then MapToolToHuman (to_string (m_tool_name m)) (m_input_data m)
                else Label (or_else (m_action_label m) ''Tool Execution''))
         in prev @ [(chat ''agent'')\<lparr>
              c_row_type := Some ''tool_trace'',
              c_tool_data := Some \<lparr> td_label = Some humanLabel, td_name = m_tool_name m,
                                    td_args = m_input_data m, td_status = ''running'' \<rparr>,
              c_actions := Some [\<lparr> a_call_id = m_call_id m, a_type = ''tool_start'',
                                   a_label = humanLabel, a_status = ''running'' \<rparr>] \<rparr>])
      else if m_action_type m = Some ''tool_end'' then
        map (\<lambda>r.
               if c_row_type r = Some ''tool_trace'' \<and> first_call_id r = m_call_id m
               then r\<lparr> c_tool_data := Some
                      (case c_tool_data r of
                         None \<Rightarrow> \<lparr> td_label = None, td_name = None, td_args = None,
                                    td_status = or_else (m_action_status m) ''success'' \<rparr>
                       | Some td \<Rightarrow> td\<lparr> td_status := or_else (m_action_status m) ''success'' \<rparr>) \<rparr>
               else r)
            prev
      else prev)"

subsection \<open>The state and the message handler\<close>

text \<open>
  The React state of \<open>App\<close> that the handler of \<open>client.onMessage\<close> writes, with two
  logs of its effects: \<open>posted\<close> holds every \<open>vscode.postMessage\<close>, \<open>speakingTimers\<close>
  counts the \<open>setTimeout\<close> calls of the \<open>tts_audio\<close> branch. A state setter called
  with an updater function is applied to its own variable in call order.
\<close>

record app_state =
  status :: string
  messages :: "chat_message list"
  isRecording :: bool
  isSpeaking :: bool
  currentPlan :: "payload option"
  timeline :: "interaction_node list"
  systemStatus :: "payload option"
  posted :: "message list"
  speakingTimers :: nat

definition initial :: app_state where
  "initial = \<lparr> status = ''Ready'', messages = [], isRecording = False, isSpeaking = False,
     currentPlan = None, timeline = [], systemStatus = None, posted = [],
     speakingTimers = 0 \<rparr>"

text \<open>
  What the handler reads from its environment on each message:
  \<open>new Date().toLocaleTimeString()\<close>, \<open>Date.now().toString()\<close> and
  \<open>Math.random().toString()\<close>.
\<close>

record clock =
  k_timestamp :: string
  k_now :: string
  k_random :: string

datatype error = TypeError string

text \<open>\<open>{ id: Date.now().toString(), timestamp, type: ty, payload: p }\<close>\<close>

definition logEntry :: "clock \<Rightarrow> string \<Rightarrow> log_payload \<Rightarrow> log_data" where
  "logEntry k ty p = \<lparr> l_id = k_now k, l_timestamp = k_timestamp k, l_type = ty,
     l_category = None, l_payload = p \<rparr>"

definition ttsStatusOf :: "message \<Rightarrow> chat_message \<Rightarrow> chat_message" where
  "ttsStatusOf m r =
     (if truthy (m_message_id m) \<and> c_id r = m_message_id m then
        r\<lparr> c_ttsStatus := Some (if m_status m = Some ''started'' then ''reading''
                                 else if m_status m = Some ''error'' then ''error''
                                 else ''idle'') \<rparr>
      else if m_status m = Some ''stopped''
              \<or> (m_status m = Some ''started'' \<and> c_ttsStatus r = Some ''reading'')
      then r\<lparr> c_ttsStatus := Some ''idle'' \<rparr>
      else r)"

text \<open>The \<open>transcript\<close> updater of the message list.\<close>

definition transcript :: "string option \<Rightarrow> chat_message list \<Rightarrow> chat_message list" where
  "transcript txt prev =
     (case lastMsg prev of
        None \<Rightarrow> prev @ [(chat ''user'')\<lparr> c_text := Some (or_else txt []), c_type := Some ''text'' \<rparr>]
      | Some l \<Rightarrow>
          if c_role l = ''user'' \<and> c_text l = txt then prev
          else prev @ [(chat ''user'')\<lparr> c_text := Some (or_else txt []), c_type := Some ''text'' \<rparr>])"

definition collapseStep :: "chat_message \<Rightarrow> chat_message" where
  "collapseStep r =
     (case c_step_data r of
        Some sd \<Rightarrow>
          if c_row_type r = Some ''step_container''
          then r\<lparr> c_step_data := Some (sd\<lparr> sd_isCollapsed := Some True \<rparr>) \<rparr>
          else r
      | None \<Rightarrow> r)"

text \<open>\<open>m.step_data?.id === id\<close>, and the spread \<open>{ ...m.step_data!, status: 'done', isCollapsed: true }\<close>\<close>

definition completeStep :: "string option \<Rightarrow> chat_message \<Rightarrow> chat_message" where
  "completeStep ident r =
     (if c_row_type r = Some ''step_container''
         \<and> (case c_step_data r of None \<Rightarrow> None | Some sd \<Rightarrow> sd_id sd) = ident
      then r\<lparr> c_step_data := Some
             (case c_step_data r of
                None \<Rightarrow> \<lparr> sd_id = None, sd_title = None, sd_description = None,
                           sd_status = ''done'', sd_isCollapsed = Some True \<rparr>
              | Some sd \<Rightarrow> sd\<lparr> sd_status := ''done'', sd_isCollapsed := Some True \<rparr>) \<rparr>
      else r)"

text \<open>
  The updater that \<open>update_step\<close> gives to \<open>setCurrentPlan\<close>. \<open>prev.steps.map\<close> has
  no guard: on a current plan without \<open>steps\<close> it throws.
\<close>

definition updatePlanStep :: "payload \<Rightarrow> payload option \<Rightarrow> error + payload option" where
  "updatePlanStep p prev =
     (case prev of
        None \<Rightarrow> Inr None
      | Some pl \<Rightarrow>
          (case p_steps pl of
             None \<Rightarrow> Inl (TypeError ''Cannot read properties of undefined (reading 'map')'')
           | Some ss \<Rightarrow>
               Inr (Some (pl\<lparr> p_steps := Some
                 (map (\<lambda>s. if ps_id s = p_id p then s\<lparr> ps_status := p_status p \<rparr> else s) ss) \<rparr>))))"

definition onCommand :: "clock \<Rightarrow> message \<Rightarrow> app_state \<Rightarrow> error + app_state" where
  "onCommand k m s =
     (if m_command m = Some ''stop_recording'' then
        Inr (s\<lparr> isRecording := False, status := ''Ready'' \<rparr>)
      else if m_command m = Some ''update_plan'' then
        Inr (s\<lparr> currentPlan := m_payload m,
                timeline := updateTimelinePlan (m_payload m) (m_interaction_id m)
                  (addToTimeline (logEntry k ''PLAN_UPDATE'' (PayloadOf (m_payload m)))
                     (m_interaction_id m) None (timeline s)) \<rparr>)
      else if m_command m = Some ''request_approval'' then
        Inr (s\<lparr> currentPlan := m_payload m,
                status := ''waiting_approval'',
                timeline := updateTimelinePlan (m_payload m) (m_interaction_id m)
                  (addToTimeline (logEntry k ''PLAN_APPROVAL_NEEDED'' (PayloadOf (m_payload m)))
                     (m_interaction_id m) None (timeline s)) \<rparr>)
      else if m_command m = Some ''update_step'' then
        (case m_payload m of
           None \<Rightarrow> Inr s
         | Some p \<Rightarrow>
             if truthy (p_id p) then
               (case updatePlanStep p (currentPlan s) of
                  Inl e \<Rightarrow> Inl e
                | Inr plan \<Rightarrow>
                    Inr (s\<lparr> currentPlan := plan,
                            timeline :=
                              addToTimeline (logEntry k ''STEP_UPDATE'' (PayloadOf (m_payload m)))
                                (m_interaction_id m) (p_id p)
                                (updateStepStatusInTimeline (p_id p) (p_status p)
                                   (m_interaction_id m) (timeline s)) \<rparr>))
             else Inr s)
      else if m_command m = Some ''system_status'' then
        Inr (s\<lparr> systemStatus := m_payload m,
                timeline := addToTimeline (logEntry k ''SYS_STATUS'' (PayloadOf (m_payload m)))
                  (Some ''SYSTEM'') None (timeline s) \<rparr>)
      else Inr s)"

definition onMessage :: "clock \<Rightarrow> message \<Rightarrow> app_state \<Rightarrow> error + app_state" where
  "onMessage k m s =
     (if m_type m = ''status'' then
        Inr (s\<lparr> status := or_else (m_status m) ''Ready'' \<rparr>)
      else if m_type m = ''response'' then
        (if truthy (m_text m)
         then Inr (s\<lparr> messages := processAgentResponse (to_string (m_text m))
                         (case m_is_delta m of None \<Rightarrow> False | Some b \<Rightarrow> b) (m_id m) (messages s) \<rparr>)
         else Inr s)
      else if m_type m = ''tts_status'' then
        Inr (s\<lparr> isSpeaking := (m_status m = Some ''started''),
                messages := map (ttsStatusOf m) (messages s) \<rparr>)
      else if m_type m = ''transcript'' then
        (if truthy (m_text m)
         then Inr (s\<lparr> messages := transcript (m_text m) (messages s) \<rparr>)
         else Inr s)
      else if m_type m = ''error'' then
        Inr (s\<lparr> messages := messages s @ [(chat ''agent'')\<lparr>
                  c_text := Some ('' Error: '' @ to_string (js_or (m_message m) (m_error m))),
                  c_type := Some ''text'' \<rparr>],
                timeline := addToTimeline (logEntry k ''ERROR'' (MessageOf m))
                  (m_interaction_id m) None (timeline s),
                posted := posted s @ [(msg ''show_error'')\<lparr>
                  m_message := js_or (m_message m) (m_error m) \<rparr>] \<rparr>)
      else if m_type m = ''plan_created'' then
        Inr (s\<lparr> messages := messages s @ [(chat ''agent'')\<lparr>
                  c_type := Some ''plan_created'',
                  c_row_type := Some ''plan_container'',
                  c_plan_data := Some \<lparr>
                    pd_goal = (case m_payload m of Some p \<Rightarrow> p_refined_goal p | None \<Rightarrow> m_refined_goal m),
                    pd_steps = (case m_payload m of Some p \<Rightarrow> p_steps p | None \<Rightarrow> m_steps m),
                    pd_isCollapsed = Some True \<rparr> \<rparr>] \<rparr>)
      else if m_type m = ''step_start'' then
        Inr (s\<lparr> messages := map collapseStep (messages s) @ [(chat ''agent'')\<lparr>
                  c_type := Some ''step_start'',
                  c_row_type := Some ''step_container'',
                  c_step_data := Some \<lparr>
                    sd_id = (case m_payload m of Some p \<Rightarrow> p_id p | None \<Rightarrow> m_id m),
                    sd_title = (case m_payload m of Some p \<Rightarrow> p_title p | None \<Rightarrow> m_title m),
                    sd_description =
                      (case m_payload m of Some p \<Rightarrow> p_description p | None \<Rightarrow> m_description m),
                    sd_status = ''in_progress'',
                    sd_isCollapsed = Some False \<rparr> \<rparr>] \<rparr>)
      else if m_type m = ''step_complete'' then
        Inr (s\<lparr> messages :=
                  map (completeStep (case m_payload m of Some p \<Rightarrow> p_id p | None \<Rightarrow> m_id m))
                    (messages s) \<rparr>)
      else if m_type m = ''agent_action'' then
        Inr (s\<lparr> messages := handleAgentAction m (messages s) \<rparr>)
      else if m_type m = ''command'' then onCommand k m s
      else if m_type m = ''debug'' then
        Inr (s\<lparr> timeline := addToTimeline
                  \<lparr> l_id = k_now k @ k_random k, l_timestamp = k_timestamp k, l_type = ''DEBUG'',
                    l_category = m_category m, l_payload = DataOf (m_data m) \<rparr>
                  (m_interaction_id m) (m_step_id m) (timeline s) \<rparr>)
      else if m_type m = ''tool_usage'' then
        Inr (s\<lparr> posted := posted s @ [m] \<rparr>)
      else if m_type m = ''tts_audio'' then
        Inr (s\<lparr> isSpeaking := True, speakingTimers := speakingTimers s + 1 \<rparr>)
      else Inr s)"

text \<open>The messages of a session in delivery order; an exception ends the run.\<close>

fun onMessages :: "(clock \<times> message) list \<Rightarrow> app_state \<Rightarrow> error + app_state" where
  "onMessages [] s = Inr s"
| "onMessages ((k, m) # ms) s =
     (case onMessage k m s of Inl e \<Rightarrow> Inl e | Inr s' \<Rightarrow> onMessages ms s')"

text \<open>
  The call of \<open>addToTimeline\<close> that the handler makes for a message, if it makes one:
  the log entry, the interaction id and the step id it passes.
\<close>

definition timelineEntry :: "clock \<Rightarrow> message \<Rightarrow> (log_data \<times> string option \<times> string option) option" where
  "timelineEntry k m =
     (if m_type m = ''error'' then
        Some (logEntry k ''ERROR'' (MessageOf m), m_interaction_id m, None)
      else if m_type m = ''command'' then
        (if m_command m = Some ''update_plan'' then
           Some (logEntry k ''PLAN_UPDATE'' (PayloadOf (m_payload m)), m_interaction_id m, None)
         else if m_command m = Some ''request_approval'' then
           Some (logEntry k ''PLAN_APPROVAL_NEEDED'' (PayloadOf (m_payload m)), m_interaction_id m, None)
         else if m_command m = Some ''update_step'' then
           (case m_payload m of
              None \<Rightarrow> None
            | Some p \<Rightarrow>
                if truthy (p_id p)
                then Some (logEntry k ''STEP_UPDATE'' (PayloadOf (m_payload m)), m_interaction_id m, p_id p)
                else None)
         else if m_command m = Some ''system_status'' then
           Some (logEntry k ''SYS_STATUS'' (PayloadOf (m_payload m)), Some ''SYSTEM'', None)
         else None)
      else if m_type m = ''debug'' then
        Some (\<lparr> l_id = k_now k @ k_random k, l_timestamp = k_timestamp k, l_type = ''DEBUG'',
                l_category = m_category m, l_payload = DataOf (m_data m) \<rparr>,
              m_interaction_id m, m_step_id m)
      else None)"

text \<open>
  The logs of the step \<open>step_id\<close> of a node, the first step of that id as \<open>findIndex\<close>
  finds it; none when the node has no such step.
\<close>

definition stepLogs :: "string option \<Rightarrow> interaction_node \<Rightarrow> log_data list" where
  "stepLogs step_id node =
     (case findIndex (\<lambda>s. s_id s = step_id) (n_steps node) of
        None \<Rightarrow> []
      | Some j \<Rightarrow> s_logs (n_steps node ! j))"

section \<open>Host side: \<open>ChatViewProvider\<close>\<close>









section \<open>Sample inputs\<close>

text \<open>
  The events of the specification's scenarios, a clock reading for each, and the
  collaborators of one tool call: a capability that fails and a host with its view.
\<close>

definition clock1 :: clock where
  "clock1 = \<lparr> k_timestamp = ''10:00:01'', k_now = ''1001'', k_random = ''0.1'' \<rparr>"

definition clock2 :: clock where
  "clock2 = \<lparr> k_timestamp = ''10:00:02'', k_now = ''1002'', k_random = ''0.2'' \<rparr>"

definition clock3 :: clock where
  "clock3 = \<lparr> k_timestamp = ''10:00:03'', k_now = ''1003'', k_random = ''0.3'' \<rparr>"

definition plan_G :: payload where
  "plan_G = obj\<lparr> p_goal := Some ''G'',
     p_steps := Some [\<lparr> ps_id = Some ''1'', ps_title = Some ''T1'', ps_description = None,
                        ps_status = Some ''pending'' \<rparr>] \<rparr>"

definition plan_created_G :: message where
  "plan_created_G = (msg ''plan_created'')\<lparr> m_payload := Some plan_G \<rparr>"

definition update_plan_G :: message where
  "update_plan_G = (msg ''command'')\<lparr> m_command := Some ''update_plan'', m_payload := Some plan_G \<rparr>"

definition step_start_1 :: message where
  "step_start_1 = (msg ''step_start'')\<lparr> m_payload := Some (obj\<lparr> p_id := Some ''1'' \<rparr>) \<rparr>"

definition update_step_1_done :: message where
  "update_step_1_done = (msg ''command'')\<lparr> m_command := Some ''update_step'',
     m_payload := Some (obj\<lparr> p_id := Some ''1'', p_status := Some ''done'' \<rparr>) \<rparr>"

definition update_step_missing :: message where
  "update_step_missing = (msg ''command'')\<lparr> m_command := Some ''update_step'',
     m_payload := Some (obj\<lparr> p_id := Some ''missing'' \<rparr>) \<rparr>"

text \<open>
  A session with a manual reconnect: the first connection opens and closes cleanly,
  \<open>connect\<close> is called again, that attempt fails and the timer starts a third one. The
  client this leaves, and the client after the third attempt fails too.
\<close>

definition reconnect_session :: "event list" where
  "reconnect_session =
     [CallConnect, SocketOpen 0, SocketClose 0 True, CallConnect, SocketClose 1 False, TimerFired 0]"

definition client_2 :: ws_client where
  "client_2 = \<lparr> ws = Some 2, reconnectAttempts = 1, maxReconnectDelay = 10000,
     sockets = [CLOSED, CLOSED, CONNECTING], timers = [(1000, False)],
     statuses = [Connecting, Connected, Disconnected, Connecting, Disconnected, Connecting],
     wire = [], delivered = [] \<rparr>"

definition client_3 :: ws_client where
  "client_3 = \<lparr> ws = Some 2, reconnectAttempts = 1, maxReconnectDelay = 10000,
     sockets = [CLOSED, CLOSED, CLOSED], timers = [(1000, False), (2000, True)],
     statuses = [Connecting, Connected, Disconnected, Connecting, Disconnected, Connecting,
                 Disconnected],
     wire = [], delivered = [] \<rparr>"

text \<open>The session after \<open>update_plan_G\<close> at \<open>clock1\<close>, and after \<open>update_step_1_done\<close> at \<open>clock2\<close>.\<close>

definition session_G :: app_state where
  "session_G = initial\<lparr>
     currentPlan := Some plan_G,
     timeline := [\<lparr> n_id = ''SYSTEM'', n_timestamp = ''10:00:01'', n_title = ''Task: Unknown'',
       n_steps = [\<lparr> s_id = Some ''1'', s_title = Some ''T1'', s_status = Some ''pending'',
                    s_logs = [] \<rparr>],
       n_plan = Some plan_G,
       n_logs = [logEntry clock1 ''PLAN_UPDATE'' (PayloadOf (Some plan_G))] \<rparr>] \<rparr>"

definition session_G_done :: app_state where
  "session_G_done = initial\<lparr>
     currentPlan := Some (plan_G\<lparr> p_steps := Some [\<lparr> ps_id = Some ''1'', ps_title = Some ''T1'',
       ps_description = None, ps_status = Some ''done'' \<rparr>] \<rparr>),
     timeline := [\<lparr> n_id = ''SYSTEM'', n_timestamp = ''10:00:01'', n_title = ''Task: Unknown'',
       n_steps = [\<lparr> s_id = Some ''1'', s_title = Some ''T1'', s_status = Some ''done'',
                    s_logs = [logEntry clock2 ''STEP_UPDATE''
                                (PayloadOf (m_payload update_step_1_done))] \<rparr>],
       n_plan = Some plan_G,
       n_logs = [logEntry clock1 ''PLAN_UPDATE'' (PayloadOf (Some plan_G))] \<rparr>] \<rparr>"

text \<open>
  A debug line for step 1 of interaction \<open>t1\<close>, the session it leaves at \<open>clock1\<close>,
  and the plan update addressed to that interaction.
\<close>

definition debug_t1 :: message where
  "debug_t1 = (msg ''debug'')\<lparr> m_interaction_id := Some ''t1'', m_step_id := Some ''1'',
     m_data := Some ''{}'' \<rparr>"

definition session_t1 :: app_state where
  "session_t1 = initial\<lparr>
     timeline := [\<lparr> n_id = ''t1'', n_timestamp = ''10:00:01'', n_title = ''Active Task'',
       n_steps = [\<lparr> s_id = Some ''1'', s_title = Some ''Step 1'', s_status = Some ''pending'',
                    s_logs = [\<lparr> l_id = ''10010.1'', l_timestamp = ''10:00:01'', l_type = ''DEBUG'',
                                l_category = None, l_payload = DataOf (Some ''{}'') \<rparr>] \<rparr>],
       n_plan = None, n_logs = [] \<rparr>] \<rparr>"

definition update_plan_t1 :: message where
  "update_plan_t1 = update_plan_G\<lparr> m_interaction_id := Some ''t1'' \<rparr>"





section \<open>Properties of the transport\<close>

lemma filter_update_length:
  "i < length xs \<Longrightarrow>
     length (filter P (xs[i := y])) + (if P (xs ! i) then 1 else 0)
       = length (filter P xs) + (if P y then 1 else 0)"
proof (induction xs arbitrary: i)
  case Nil
  then show ?case by simp
next
  case (Cons x xs)
  then show ?case by (cases i) auto
qed

lemma live_update:
  "i < length (sockets c) \<Longrightarrow>
     length (filter (\<lambda>s. s \<noteq> CLOSED) ((sockets c)[i := y])) + (if sockets c ! i \<noteq> CLOSED then 1 else 0)
       = live c + (if y \<noteq> CLOSED then 1 else 0)"
  unfolding live_def by (rule filter_update_length)

lemma pending_update:
  "k < length (timers c) \<Longrightarrow>
     length (filter snd ((timers c)[k := y])) + (if snd (timers c ! k) then 1 else 0)
       = pending c + (if snd y then 1 else 0)"
  unfolding pending_def by (rule filter_update_length)

text \<open>
  What one event does to the sockets alive, the timers pending and the attempt counter.
\<close>

lemma fire_open:
  assumes "enabled c (SocketOpen i)"
  shows "live (fire (SocketOpen i) c) = live c" "0 < live c"
    "pending (fire (SocketOpen i) c) = pending c"
    "reconnectAttempts (fire (SocketOpen i) c) = 0"
    "maxReconnectDelay (fire (SocketOpen i) c) = maxReconnectDelay c"
proof -
  from assms have i: "i < length (sockets c)" "sockets c ! i = CONNECTING"
    by (auto simp: socket_state_def split: if_splits)
  from live_update[OF i(1), of OPEN] i(2)
  have "length (filter (\<lambda>s. s \<noteq> CLOSED) ((sockets c)[i := OPEN])) = live c" by simp
  then show "live (fire (SocketOpen i) c) = live c"
    by (simp add: onopen_def notifyStatus_def live_def)
  from live_update[OF i(1), of CLOSED] i(2) show "0 < live c" by simp
  show "pending (fire (SocketOpen i) c) = pending c"
    "reconnectAttempts (fire (SocketOpen i) c) = 0"
    "maxReconnectDelay (fire (SocketOpen i) c) = maxReconnectDelay c"
    by (simp_all add: onopen_def notifyStatus_def pending_def)
qed

lemma fire_close:
  assumes "enabled c (SocketClose i wasClean)"
  shows "Suc (live (fire (SocketClose i wasClean) c)) = live c"
    "pending (fire (SocketClose i wasClean) c) = (if wasClean then pending c else Suc (pending c))"
    "reconnectAttempts (fire (SocketClose i wasClean) c) = reconnectAttempts c"
    "maxReconnectDelay (fire (SocketClose i wasClean) c) = maxReconnectDelay c"
    "timers (fire (SocketClose i wasClean) c) =
       (if wasClean then timers c else timers c @ [(reconnect_delay c, True)])"
proof -
  from assms have i: "i < length (sockets c)" "sockets c ! i \<noteq> CLOSED" by auto
  from live_update[OF i(1), of CLOSED] i(2)
  have "length (filter (\<lambda>s. s \<noteq> CLOSED) ((sockets c)[i := CLOSED])) + 1 = live c" by simp
  then show "Suc (live (fire (SocketClose i wasClean) c)) = live c"
    by (simp add: onclose_def notifyStatus_def live_def Let_def)
  show "pending (fire (SocketClose i wasClean) c) = (if wasClean then pending c else Suc (pending c))"
    "reconnectAttempts (fire (SocketClose i wasClean) c) = reconnectAttempts c"
    "maxReconnectDelay (fire (SocketClose i wasClean) c) = maxReconnectDelay c"
    "timers (fire (SocketClose i wasClean) c) =
       (if wasClean then timers c else timers c @ [(reconnect_delay c, True)])"
    by (simp_all add: onclose_def notifyStatus_def pending_def reconnect_delay_def Let_def)
qed

lemma fire_timer:
  assumes "enabled c (TimerFired k)"
  shows "live (fire (TimerFired k) c) = Suc (live c)"
    "Suc (pending (fire (TimerFired k) c)) = pending c"
    "reconnectAttempts (fire (TimerFired k) c) = Suc (reconnectAttempts c)"
    "maxReconnectDelay (fire (TimerFired k) c) = maxReconnectDelay c"
proof -
  from assms have k: "k < length (timers c)" "snd (timers c ! k)" by auto
  from pending_update[OF k(1), of "(fst (timers c ! k), False)"] k(2)
  have "length (filter snd ((timers c)[k := (fst (timers c ! k), False)])) + 1 = pending c"
    by simp
  then show "Suc (pending (fire (TimerFired k) c)) = pending c"
    by (simp add: reconnect_callback_def connect_def notifyStatus_def pending_def Let_def)
  show "live (fire (TimerFired k) c) = Suc (live c)"
    "reconnectAttempts (fire (TimerFired k) c) = Suc (reconnectAttempts c)"
    "maxReconnectDelay (fire (TimerFired k) c) = maxReconnectDelay c"
    by (simp_all add: reconnect_callback_def connect_def notifyStatus_def live_def Let_def)
qed

lemma fire_connect:
  shows "live (connect c) = Suc (live c)" "pending (connect c) = pending c"
    "outstanding (connect c) = Suc (outstanding c)"
    "reconnectAttempts (connect c) = reconnectAttempts c"
    "maxReconnectDelay (connect c) = maxReconnectDelay c"
    "sockets (connect c) = sockets c @ [CONNECTING]" "ws (connect c) = Some (length (sockets c))"
  by (simp_all add: connect_def notifyStatus_def live_def pending_def outstanding_def Let_def)

lemma fire_other:
  assumes "e = CallSend m \<or> e = SocketMessage i d \<or> e = SocketError i"
  shows "live (fire e c) = live c" "pending (fire e c) = pending c"
    "reconnectAttempts (fire e c) = reconnectAttempts c"
    "maxReconnectDelay (fire e c) = maxReconnectDelay c"
  using assms
  by (auto simp: send_def onmessage_def onerror_def notifyStatus_def live_def pending_def
      split: option.splits)

text \<open>
  The invariant of a client on which \<open>connect\<close> is called only while it is idle: one
  socket alive or one timer pending, never both; the counter is the number of unclean
  closes since the last open, and one behind while a timer is pending.
\<close>

lemma fire_keeps_backoff:
  assumes "enabled c e" "e \<noteq> CallConnect \<or> live c + pending c = 0"
    and inv: "live c + pending c \<le> 1" "pending c = 0 \<longrightarrow> reconnectAttempts c = n"
      "0 < pending c \<longrightarrow> Suc (reconnectAttempts c) = n"
  shows "live (fire e c) + pending (fire e c) \<le> 1"
    and "pending (fire e c) = 0 \<longrightarrow> reconnectAttempts (fire e c) = streak n [e]"
    and "0 < pending (fire e c) \<longrightarrow> Suc (reconnectAttempts (fire e c)) = streak n [e]"
    and "maxReconnectDelay (fire e c) = maxReconnectDelay c"
proof -
  have "live (fire e c) + pending (fire e c) \<le> 1
    \<and> (pending (fire e c) = 0 \<longrightarrow> reconnectAttempts (fire e c) = streak n [e])
    \<and> (0 < pending (fire e c) \<longrightarrow> Suc (reconnectAttempts (fire e c)) = streak n [e])
    \<and> maxReconnectDelay (fire e c) = maxReconnectDelay c"
  proof (cases e)
    case CallConnect
    with assms(2) have "live c + pending c = 0" by simp
    with CallConnect fire_connect[of c] inv show ?thesis by simp
  next
    case (CallSend m)
    with fire_other[of e m _ _ c] inv show ?thesis by simp
  next
    case (SocketOpen i)
    with fire_open[of c i] assms(1) inv show ?thesis by auto
  next
    case (SocketMessage i d)
    with fire_other[of e _ i d c] inv show ?thesis by simp
  next
    case (SocketError i)
    with fire_other[of e _ i _ c] inv show ?thesis by simp
  next
    case (SocketClose i wasClean)
    with fire_close[of c i wasClean] assms(1) inv show ?thesis by (cases wasClean) auto
  next
    case (TimerFired k)
    with fire_timer[of c k] assms(1) inv show ?thesis by auto
  qed
  then show "live (fire e c) + pending (fire e c) \<le> 1"
    and "pending (fire e c) = 0 \<longrightarrow> reconnectAttempts (fire e c) = streak n [e]"
    and "0 < pending (fire e c) \<longrightarrow> Suc (reconnectAttempts (fire e c)) = streak n [e]"
    and "maxReconnectDelay (fire e c) = maxReconnectDelay c"
    by simp_all
qed

lemma streak_Cons: "streak n (e # es) = streak (streak n [e]) es"
  by (cases e) simp_all

lemma run_keeps_backoff:
  assumes "run es c = Some c'" "idle_connects es c"
    and "live c + pending c \<le> 1" "pending c = 0 \<longrightarrow> reconnectAttempts c = n"
      "0 < pending c \<longrightarrow> Suc (reconnectAttempts c) = n"
  shows "live c' + pending c' \<le> 1 \<and> (pending c' = 0 \<longrightarrow> reconnectAttempts c' = streak n es)
    \<and> (0 < pending c' \<longrightarrow> Suc (reconnectAttempts c') = streak n es)
    \<and> maxReconnectDelay c' = maxReconnectDelay c"
  using assms
proof (induction es arbitrary: c n)
  case Nil
  then show ?case by simp
next
  case (Cons e es)
  then have en: "enabled c e" and r: "run es (fire e c) = Some c'"
    by (auto split: if_splits)
  from Cons.prems(2) have ne: "e \<noteq> CallConnect \<or> live c + pending c = 0"
    "idle_connects es (fire e c)" by auto
  note step = fire_keeps_backoff[OF en ne(1) Cons.prems(3,4,5)]
  from Cons.IH[OF r ne(2) step(1,2,3)] step(4) show ?case
    by (simp add: streak_Cons[of n e es])
qed

lemma new_client_idle:
  "live new_client + pending new_client \<le> 1" "reconnectAttempts new_client = 0"
  "pending new_client = 0" "maxReconnectDelay new_client = 10000"
  by (simp_all add: new_client_def live_def pending_def)

text \<open>
  Claim C1, as amended. Take any session of a client in which \<open>connect\<close> is called
  only while no socket is alive and no reconnect timer is pending: the first call, or
  a manual reconnect after a clean close. The events \<open>es\<close> are arbitrary otherwise
  (opens, messages, errors, sends, clean and unclean closes, timers). Let the next
  unclean close be number \<open>N\<close> of its run of consecutive unclean closes with no open
  in between. Then that close schedules the reconnect after
  \<open>min (1000 * 2 ^ (N - 1)) 10000\<close> milliseconds. An open sets the attempt counter to
  0 and ends the run, so an unclean close right after it schedules the reconnect after
  1000 milliseconds.
\<close>

theorem reconnect_backoff:
  assumes "run es new_client = Some c" "idle_connects es new_client"
    "N = Suc (streak 0 es)"
  shows "(\<forall>i c'. run [SocketClose i False] c = Some c' \<longrightarrow>
            timers c' = timers c @ [(min (1000 * 2 ^ (N - 1)) 10000, True)])
       \<and> (\<forall>i c'. run [SocketOpen i] c = Some c' \<longrightarrow>
            reconnectAttempts c' = 0 \<and> streak 0 (es @ [SocketOpen i]) = 0
            \<and> (\<forall>j c''. run [SocketClose j False] c' = Some c'' \<longrightarrow>
                  timers c'' = timers c @ [(1000, True)]))"
proof (intro conjI allI impI)
  from run_keeps_backoff[OF assms(1,2) new_client_idle(1), of 0] new_client_idle
  have inv: "live c + pending c \<le> 1" "pending c = 0 \<longrightarrow> reconnectAttempts c = streak 0 es"
    "maxReconnectDelay c = 10000"
    by simp_all
  {
    fix i c'
    assume "run [SocketClose i False] c = Some c'"
    then have en: "enabled c (SocketClose i False)" and c': "c' = fire (SocketClose i False) c"
      by (auto split: if_splits)
    from fire_close(1)[OF en] inv(1) have "pending c = 0" by simp
    with inv have "reconnect_delay c = min (1000 * 2 ^ streak 0 es) 10000"
      by (simp add: reconnect_delay_def)
    with fire_close(5)[OF en] c' assms(3)
    show "timers c' = timers c @ [(min (1000 * 2 ^ (N - 1)) 10000, True)]"
      by simp
  }
  {
    fix i c'
    assume "run [SocketOpen i] c = Some c'"
    then have en: "enabled c (SocketOpen i)" and c': "c' = fire (SocketOpen i) c"
      by (auto split: if_splits)
    show "reconnectAttempts c' = 0" using fire_open(4)[OF en] c' by simp
    have "streak n (xs @ [SocketOpen i]) = 0" for n xs
    proof (induction xs arbitrary: n)
      case Nil
      show ?case by simp
    next
      case (Cons x xs)
      show ?case
        using Cons[of "streak n [x]"] by (simp add: streak_Cons[of n x "xs @ [SocketOpen i]"])
    qed
    then show "streak 0 (es @ [SocketOpen i]) = 0" .
    fix j c''
    assume "run [SocketClose j False] c' = Some c''"
    then have en': "enabled c' (SocketClose j False)" and c'': "c'' = fire (SocketClose j False) c'"
      by (auto split: if_splits)
    have "reconnect_delay c' = 1000"
      using fire_open(4,5)[OF en] c' inv(3) by (simp add: reconnect_delay_def)
    moreover have "timers c' = timers c" using c' by (simp add: onopen_def notifyStatus_def)
    ultimately show "timers c'' = timers c @ [(1000, True)]"
      using fire_close(5)[OF en'] c'' by simp
  }
qed

lemmas transport_defs = connect_def new_client_def notifyStatus_def onclose_def onopen_def
  reconnect_callback_def reconnect_delay_def socket_state_def live_def pending_def Let_def

lemma client_2_reached: "run reconnect_session new_client = Some client_2"
  by (simp add: reconnect_session_def client_2_def transport_defs)

lemma reconnect_session_idle: "idle_connects reconnect_session new_client"
  by (simp add: reconnect_session_def transport_defs)

theorem reconnect_backoff_witness:
  "run reconnect_session new_client = Some client_2
   \<and> idle_connects reconnect_session new_client
   \<and> 2 = Suc (streak 0 reconnect_session)
   \<and> run [SocketClose 2 False] client_2 = Some client_3
   \<and> timers client_3 = timers client_2 @ [(2000, True)]
   \<and> map_option reconnectAttempts (run [SocketOpen 2] client_2) = Some 0
   \<and> map_option timers (run [SocketOpen 2, SocketClose 2 False] client_2)
       = Some (timers client_2 @ [(1000, True)])"
proof -
  have h: "2 = Suc (streak 0 reconnect_session)"
    by (simp add: reconnect_session_def)
  have r: "run [SocketClose 2 False] client_2 = Some client_3"
    by (simp add: client_2_def client_3_def onclose_def notifyStatus_def reconnect_delay_def Let_def)
  have e: "min (1000 * 2 ^ (2 - 1)) (10000::nat) = 2000" by simp
  from reconnect_backoff[OF client_2_reached reconnect_session_idle h] r
  have "timers client_3 = timers client_2 @ [(min (1000 * 2 ^ (2 - 1)) 10000, True)]"
    by blast
  moreover have "map_option reconnectAttempts (run [SocketOpen 2] client_2) = Some 0"
    by (simp add: client_2_def transport_defs)
  moreover have "map_option timers (run [SocketOpen 2, SocketClose 2 False] client_2)
      = Some (timers client_2 @ [(1000, True)])"
    by (simp add: client_2_def transport_defs)
  ultimately show ?thesis
    using client_2_reached reconnect_session_idle h r unfolding e by blast
qed

text \<open>
  The claim as stated fails when \<open>connect\<close> is called while a socket is alive or a
  timer is pending. In each of the three sessions below two sockets close uncleanly
  with no open and no timer fired in between, and the second close of the run schedules
  1000 milliseconds, not 2000: \<open>connect\<close> is called again while the first attempt
  is outstanding, while the reconnect timer is pending, and while the socket is open.
\<close>

theorem reconnect_backoff_counterexample:
  "map_option timers
     (run [CallConnect, CallConnect, SocketClose 0 False, SocketClose 1 False] new_client)
     = Some [(1000, True), (1000, True)]
   \<and> map_option timers
     (run [CallConnect, SocketClose 0 False, CallConnect, SocketClose 1 False] new_client)
     = Some [(1000, True), (1000, True)]
   \<and> map_option timers
     (run [CallConnect, SocketOpen 0, CallConnect, SocketClose 0 False, SocketClose 1 False]
        new_client)
     = Some [(1000, True), (1000, True)]
   \<and> min (1000 * 2 ^ (2 - 1)) 10000 = (2000 :: nat)"
  by (simp add: transport_defs)

text \<open>
  Claim C6. \<open>send\<close> on a client whose socket is \<open>null\<close> or not in state \<open>OPEN\<close>
  returns the client unchanged: nothing is put on the wire, nothing is kept for later.
\<close>

theorem send_without_open_connection:
  "ws c = None \<or> (\<exists>i. ws c = Some i \<and> socket_state c i \<noteq> Some OPEN) \<Longrightarrow> send m c = c"
  by (auto simp: send_def)

theorem send_without_open_connection_witness:
  "(ws (connect new_client) = None
      \<or> (\<exists>i. ws (connect new_client) = Some i \<and> socket_state (connect new_client) i \<noteq> Some OPEN))
   \<and> send (msg ''text_input'') (connect new_client) = connect new_client
   \<and> wire (send (msg ''text_input'') (connect new_client)) = []"
proof -
  have h: "ws (connect new_client) = None
      \<or> (\<exists>i. ws (connect new_client) = Some i \<and> socket_state (connect new_client) i \<noteq> Some OPEN)"
    by (simp add: connect_def new_client_def notifyStatus_def socket_state_def)
  have w: "wire (connect new_client) = []"
    by (simp add: connect_def new_client_def notifyStatus_def)
  show ?thesis
    using h w send_without_open_connection[OF h, of "msg ''text_input''"] by simp
qed

lemma outstanding_le_live: "outstanding c \<le> live c"
proof -
  have "length (filter (\<lambda>s. s = CONNECTING) xs) \<le> length (filter (\<lambda>s. s \<noteq> CLOSED) xs)" for xs
    by (induction xs) auto
  then show ?thesis by (simp add: outstanding_def live_def)
qed

text \<open>
  Claim C7, as amended. \<open>connect\<close> has no guard. On every client a call creates a
  new socket in state \<open>CONNECTING\<close> and makes it the current one, without closing
  the previous one, so the attempts outstanding grow by one: a call made while an
  attempt is outstanding leaves at least two. In every session in which \<open>connect\<close>
  is called only while no socket is alive and no reconnect timer is pending, at most
  one attempt is outstanding after every event; indeed the sockets not yet closed and
  the timers not yet fired are at most one altogether.
\<close>

theorem connect_always_creates_a_socket:
  "sockets (connect c) = sockets c @ [CONNECTING]
   \<and> ws (connect c) = Some (length (sockets c))
   \<and> outstanding (connect c) = Suc (outstanding c)
   \<and> (0 < outstanding c \<longrightarrow> 2 \<le> outstanding (connect c))
   \<and> (\<forall>es c'. run es new_client = Some c' \<and> idle_connects es new_client \<longrightarrow>
          outstanding c' \<le> 1 \<and> live c' + pending c' \<le> 1)"
proof (intro conjI allI impI)
  show "sockets (connect c) = sockets c @ [CONNECTING]" by (rule fire_connect(6))
  show "ws (connect c) = Some (length (sockets c))" by (rule fire_connect(7))
  show "outstanding (connect c) = Suc (outstanding c)" by (rule fire_connect(3))
  show "2 \<le> outstanding (connect c)" if "0 < outstanding c"
    using that fire_connect(3)[of c] by simp
  fix es c'
  assume a: "run es new_client = Some c' \<and> idle_connects es new_client"
  from run_keeps_backoff[of es new_client c' 0] a new_client_idle
  have l: "live c' + pending c' \<le> 1" by simp
  then show "live c' + pending c' \<le> 1" .
  from l outstanding_le_live[of c'] show "outstanding c' \<le> 1" by simp
qed

theorem connect_always_creates_a_socket_witness:
  "run reconnect_session new_client = Some client_2
   \<and> idle_connects reconnect_session new_client
   \<and> outstanding client_2 \<le> 1 \<and> live client_2 + pending client_2 \<le> 1
   \<and> 0 < outstanding client_2 \<and> 2 \<le> outstanding (connect client_2)"
proof -
  have o: "0 < outstanding client_2" by (simp add: client_2_def outstanding_def)
  from connect_always_creates_a_socket[of client_2] client_2_reached reconnect_session_idle o
  show ?thesis by blast
qed

text \<open>
  The claim as stated fails: two attempts are outstanding after two calls of
  \<open>connect\<close> in a row, after a call made while the reconnect timer is pending, once
  the timer has fired, and after a call made while the socket is open, once that socket
  has closed uncleanly and the timer has fired.
\<close>

theorem connect_twice_counterexample:
  "map_option outstanding (run [CallConnect, CallConnect] new_client) = Some 2
   \<and> map_option outstanding
       (run [CallConnect, SocketClose 0 False, CallConnect, TimerFired 0] new_client) = Some 2
   \<and> map_option outstanding
       (run [CallConnect, SocketOpen 0, CallConnect, SocketClose 0 False, TimerFired 0] new_client)
     = Some 2"
  by (simp add: transport_defs outstanding_def)

section \<open>Properties of the timeline reducer\<close>

subsection \<open>Lists, \<open>findIndex\<close> and the timeline operations\<close>

lemma findIndex_Some:
  "findIndex P xs = Some i \<Longrightarrow> i < length xs \<and> P (xs ! i) \<and> (\<forall>j<i. \<not> P (xs ! j))"
proof (induction xs arbitrary: i)
  case Nil
  then show ?case by simp
next
  case (Cons x xs)
  show ?case
  proof (cases "P x")
    case True
    with Cons.prems show ?thesis by simp
  next
    case False
    with Cons.prems obtain k where k: "findIndex P xs = Some k" "i = Suc k" by auto
    from Cons.IH[OF k(1)] False k(2) show ?thesis
      by (auto simp: nth_Cons split: nat.splits)
  qed
qed

lemma findIndex_None: "findIndex P xs = None \<longleftrightarrow> (\<forall>x \<in> set xs. \<not> P x)"
  by (induction xs) auto

lemma findIndex_key:
  "map f xs = map f ys \<Longrightarrow> findIndex (\<lambda>x. f x = t) xs = findIndex (\<lambda>x. f x = t) ys"
proof (induction xs arbitrary: ys)
  case Nil
  then show ?case by simp
next
  case (Cons x xs)
  then obtain y ys' where "ys = y # ys'" "f x = f y" "map f xs = map f ys'" by (cases ys) auto
  with Cons.IH[of ys'] show ?case by simp
qed

lemma findIndex_append:
  "findIndex P (xs @ ys) =
     (case findIndex P xs of
        Some j \<Rightarrow> Some j
      | None \<Rightarrow> map_option (\<lambda>j. length xs + j) (findIndex P ys))"
proof (induction xs)
  case Nil
  show ?case by (cases "findIndex P ys") simp_all
next
  case (Cons x xs)
  then show ?case
    by (cases "findIndex P xs"; cases "findIndex P ys") simp_all
qed

lemma find_Some_first:
  "find P xs = Some x \<Longrightarrow> P x \<and> x \<in> set xs"
  by (induction xs) (auto split: if_splits)

lemma map_update_same:
  "i < length xs \<Longrightarrow> f y = f (xs ! i) \<Longrightarrow> map f (xs[i := y]) = map f xs"
  by (simp add: map_update list_update_same_conv)

lemma logInto_fields [simp]:
  "n_id (logInto log sid n) = n_id n"
  "n_timestamp (logInto log sid n) = n_timestamp n"
  "n_title (logInto log sid n) = n_title n"
  "n_plan (logInto log sid n) = n_plan n"
  by (simp_all add: logInto_def Let_def split: option.splits prod.splits)

lemma logInto_no_step:
  "\<not> truthy sid \<Longrightarrow> logInto log sid n = n\<lparr> n_logs := n_logs n @ [log] \<rparr>"
  by (simp add: logInto_def)

lemma logInto_old_step:
  "truthy sid \<Longrightarrow> findIndex (\<lambda>x. s_id x = sid) (n_steps n) = Some j \<Longrightarrow>
     logInto log sid n =
       n\<lparr> n_steps := (n_steps n)[j := (n_steps n ! j)\<lparr> s_logs := s_logs (n_steps n ! j) @ [log] \<rparr>] \<rparr>"
  by (simp add: logInto_def Let_def)

lemma logInto_new_step:
  "truthy sid \<Longrightarrow> findIndex (\<lambda>x. s_id x = sid) (n_steps n) = None \<Longrightarrow>
     logInto log sid n =
       n\<lparr> n_steps := n_steps n @ [\<lparr> s_id = sid, s_title = Some (''Step '' @ to_string sid),
                                    s_status = Some ''pending'', s_logs = [log] \<rparr>] \<rparr>"
  by (simp add: logInto_def)

lemma addToTimeline_found:
  "findIndex (\<lambda>n. n_id n = or_else iid ''SYSTEM'') prev = Some i \<Longrightarrow>
     addToTimeline log iid sid prev = prev[i := logInto log sid (prev ! i)]"
  by (simp add: addToTimeline_def)

lemma addToTimeline_new:
  "findIndex (\<lambda>n. n_id n = or_else iid ''SYSTEM'') prev = None \<Longrightarrow>
     addToTimeline log iid sid prev =
       prev @ [logInto log sid \<lparr> n_id = or_else iid ''SYSTEM'', n_timestamp = l_timestamp log,
                 n_title = (if or_else iid ''SYSTEM'' = ''SYSTEM'' then ''System Events''
                            else ''Active Task''),
                 n_steps = [], n_plan = None, n_logs = [] \<rparr>]"
  by (simp add: addToTimeline_def)


lemma updateTimelinePlan_ids:
  "map n_id (updateTimelinePlan plan iid prev) = map n_id prev"
  by (auto simp: updateTimelinePlan_def Let_def map_update_same dest: findIndex_Some
      split: option.splits)

lemma updateStepStatusInTimeline_ids:
  "map n_id (updateStepStatusInTimeline sid st iid prev) = map n_id prev"
  by (simp add: updateStepStatusInTimeline_def split: option.splits)




lemma nth_update_if:
  "j < length xs \<Longrightarrow> xs[i := x] ! j = (if i = j then x else xs ! j)"
  by (simp add: nth_list_update)

text \<open>\<open>updateStepStatusInTimeline\<close>, node by node and step by step.\<close>

lemma updateStepStatusInTimeline_length [simp]:
  "length (updateStepStatusInTimeline sid st iid prev) = length prev"
  by (simp add: updateStepStatusInTimeline_def)

lemma updateStepStatusInTimeline_node:
  assumes "i < length prev"
  shows "n_id (updateStepStatusInTimeline sid st iid prev ! i) = n_id (prev ! i)"
    and "length (n_steps (updateStepStatusInTimeline sid st iid prev ! i)) = length (n_steps (prev ! i))"
    and "map s_id (n_steps (updateStepStatusInTimeline sid st iid prev ! i)) = map s_id (n_steps (prev ! i))"
  using assms
  by (auto simp: updateStepStatusInTimeline_def map_update_same dest: findIndex_Some
      split: option.splits)

lemma updateStepStatusInTimeline_step:
  assumes "i < length prev" "j < length (n_steps (prev ! i))"
  shows "s_id (n_steps (updateStepStatusInTimeline sid st iid prev ! i) ! j) = s_id (n_steps (prev ! i) ! j)"
    and "s_title (n_steps (updateStepStatusInTimeline sid st iid prev ! i) ! j) = s_title (n_steps (prev ! i) ! j)"
    and "s_logs (n_steps (updateStepStatusInTimeline sid st iid prev ! i) ! j) = s_logs (n_steps (prev ! i) ! j)"
    and "s_status (n_steps (updateStepStatusInTimeline sid st iid prev ! i) ! j) =
      (if \<not> (truthy iid \<and> Some (n_id (prev ! i)) \<noteq> iid)
          \<and> findIndex (\<lambda>x. s_id x = sid) (n_steps (prev ! i)) = Some j
       then st else s_status (n_steps (prev ! i) ! j))"
  using assms
  by (auto simp: updateStepStatusInTimeline_def nth_update_if split: option.splits)






lemmas literal_defs = msg_def obj_def initial_def chat_def

lemmas reducer_defs = onMessage_def onCommand_def truthy_def updatePlanStep_def
  updateStepStatusInTimeline_def updateTimelinePlan_def syncStep_def addToTimeline_def
  logInto_def logEntry_def or_else_def to_string_def collapseStep_def Let_def

lemma session_G_reached: "onMessages [(clock1, update_plan_G)] initial = Inr session_G"
  by (simp add: session_G_def update_plan_G_def plan_G_def literal_defs reducer_defs clock1_def)

lemma session_G_done_reached: "onMessage clock2 update_step_1_done session_G = Inr session_G_done"
  by (simp add: session_G_def session_G_done_def update_step_1_done_def plan_G_def literal_defs
      reducer_defs clock1_def clock2_def)

lemma session_t1_reached: "onMessage clock1 debug_t1 initial = Inr session_t1"
  by (simp add: session_t1_def debug_t1_def literal_defs reducer_defs clock1_def)

subsection \<open>Interaction ids stay unique\<close>

lemma onCommand_entry:
  assumes "onCommand k m s = Inr s'" "m_type m = ''command''"
  shows "(timelineEntry k m = None \<longrightarrow> timeline s' = timeline s)
     \<and> (\<forall>L iid sid. timelineEntry k m = Some (L, iid, sid) \<longrightarrow>
           timeline s' = addToTimeline L iid sid (timeline s)
         \<or> (\<not> truthy sid \<and> (\<exists>pl. timeline s' =
               updateTimelinePlan pl (m_interaction_id m) (addToTimeline L iid sid (timeline s))))
         \<or> (truthy sid \<and> (\<exists>st. timeline s' =
               addToTimeline L iid sid (updateStepStatusInTimeline sid st iid (timeline s)))))"
proof -
  consider "m_command m = Some ''stop_recording''" | "m_command m = Some ''update_plan''"
    | "m_command m = Some ''request_approval''" | "m_command m = Some ''update_step''"
    | "m_command m = Some ''system_status''"
    | "m_command m \<notin> {Some ''stop_recording'', Some ''update_plan'', Some ''request_approval'',
         Some ''update_step'', Some ''system_status''}"
    by blast
  then show ?thesis
  proof cases
    case 1
    with assms show ?thesis by (auto simp: onCommand_def timelineEntry_def)
  next
    case 2
    with assms have "timeline s' = updateTimelinePlan (m_payload m) (m_interaction_id m)
        (addToTimeline (logEntry k ''PLAN_UPDATE'' (PayloadOf (m_payload m)))
           (m_interaction_id m) None (timeline s))"
      and "timelineEntry k m =
        Some (logEntry k ''PLAN_UPDATE'' (PayloadOf (m_payload m)), m_interaction_id m, None)"
      by (auto simp: onCommand_def timelineEntry_def)
    then show ?thesis by (auto simp: truthy_def)
  next
    case 3
    with assms have "timeline s' = updateTimelinePlan (m_payload m) (m_interaction_id m)
        (addToTimeline (logEntry k ''PLAN_APPROVAL_NEEDED'' (PayloadOf (m_payload m)))
           (m_interaction_id m) None (timeline s))"
      and "timelineEntry k m =
        Some (logEntry k ''PLAN_APPROVAL_NEEDED'' (PayloadOf (m_payload m)), m_interaction_id m, None)"
      by (auto simp: onCommand_def timelineEntry_def)
    then show ?thesis by (auto simp: truthy_def)
  next
    case 4
    show ?thesis
    proof (cases "m_payload m")
      case None
      with 4 assms show ?thesis by (auto simp: onCommand_def timelineEntry_def)
    next
      case (Some p)
      show ?thesis
      proof (cases "truthy (p_id p)")
        case True
        with 4 Some assms have "timeline s' =
            addToTimeline (logEntry k ''STEP_UPDATE'' (PayloadOf (m_payload m)))
              (m_interaction_id m) (p_id p)
              (updateStepStatusInTimeline (p_id p) (p_status p) (m_interaction_id m) (timeline s))"
          and "timelineEntry k m =
            Some (logEntry k ''STEP_UPDATE'' (PayloadOf (m_payload m)), m_interaction_id m, p_id p)"
          by (auto simp: onCommand_def timelineEntry_def split: sum.splits)
        with True show ?thesis by auto
      next
        case False
        with 4 Some assms show ?thesis by (auto simp: onCommand_def timelineEntry_def)
      qed
    qed
  next
    case 5
    with assms have "timeline s' = addToTimeline (logEntry k ''SYS_STATUS'' (PayloadOf (m_payload m)))
        (Some ''SYSTEM'') None (timeline s)"
      and "timelineEntry k m =
        Some (logEntry k ''SYS_STATUS'' (PayloadOf (m_payload m)), Some ''SYSTEM'', None)"
      by (auto simp: onCommand_def timelineEntry_def)
    then show ?thesis by auto
  next
    case 6
    with assms show ?thesis by (auto simp: onCommand_def timelineEntry_def)
  qed
qed

lemma onMessage_entry:
  assumes "onMessage k m s = Inr s'"
  shows "(timelineEntry k m = None \<longrightarrow> timeline s' = timeline s)
     \<and> (\<forall>L iid sid. timelineEntry k m = Some (L, iid, sid) \<longrightarrow>
           timeline s' = addToTimeline L iid sid (timeline s)
         \<or> (\<not> truthy sid \<and> (\<exists>pl. timeline s' =
               updateTimelinePlan pl (m_interaction_id m) (addToTimeline L iid sid (timeline s))))
         \<or> (truthy sid \<and> (\<exists>st. timeline s' =
               addToTimeline L iid sid (updateStepStatusInTimeline sid st iid (timeline s)))))"
proof -
  consider "m_type m = ''command''" | "m_type m = ''error''" | "m_type m = ''debug''"
    | "m_type m \<notin> {''command'', ''error'', ''debug''}"
    by blast
  then show ?thesis
  proof cases
    case 1
    with assms have "onCommand k m s = Inr s'" by (simp add: onMessage_def)
    from onCommand_entry[OF this 1] show ?thesis .
  next
    case 2
    with assms have "timeline s' = addToTimeline (logEntry k ''ERROR'' (MessageOf m))
        (m_interaction_id m) None (timeline s)"
      and "timelineEntry k m = Some (logEntry k ''ERROR'' (MessageOf m), m_interaction_id m, None)"
      by (auto simp: onMessage_def timelineEntry_def)
    then show ?thesis by auto
  next
    case 3
    with assms have "timeline s' = addToTimeline
          \<lparr> l_id = k_now k @ k_random k, l_timestamp = k_timestamp k, l_type = ''DEBUG'',
            l_category = m_category m, l_payload = DataOf (m_data m) \<rparr>
          (m_interaction_id m) (m_step_id m) (timeline s)"
      and "timelineEntry k m = Some
          (\<lparr> l_id = k_now k @ k_random k, l_timestamp = k_timestamp k, l_type = ''DEBUG'',
             l_category = m_category m, l_payload = DataOf (m_data m) \<rparr>,
           m_interaction_id m, m_step_id m)"
      by (auto simp: onMessage_def timelineEntry_def)
    then show ?thesis by auto
  next
    case 4
    with assms have "timeline s' = timeline s"
      by (auto simp: onMessage_def split: if_splits)
    moreover from 4 have "timelineEntry k m = None" by (simp add: timelineEntry_def)
    ultimately show ?thesis by simp
  qed
qed

text \<open>Where \<open>logInto\<close> puts the log.\<close>

lemma logInto_logs:
  "\<not> truthy sid \<Longrightarrow> n_logs (logInto L sid n) = n_logs n @ [L]"
  "truthy sid \<Longrightarrow> n_logs (logInto L sid n) = n_logs n"
  "truthy sid \<Longrightarrow> stepLogs sid (logInto L sid n) = stepLogs sid n @ [L]"
proof -
  show "\<not> truthy sid \<Longrightarrow> n_logs (logInto L sid n) = n_logs n @ [L]"
    by (simp add: logInto_no_step)
  assume t: "truthy sid"
  show "n_logs (logInto L sid n) = n_logs n"
    using t by (cases "findIndex (\<lambda>x. s_id x = sid) (n_steps n)")
      (simp_all add: logInto_new_step logInto_old_step)
  show "stepLogs sid (logInto L sid n) = stepLogs sid n @ [L]"
  proof (cases "findIndex (\<lambda>x. s_id x = sid) (n_steps n)")
    case None
    then have "findIndex (\<lambda>x. s_id x = sid)
        (n_steps n @ [\<lparr> s_id = sid, s_title = Some (''Step '' @ to_string sid),
                         s_status = Some ''pending'', s_logs = [L] \<rparr>]) = Some (length (n_steps n))"
      by (simp add: findIndex_append)
    with None show ?thesis
      by (simp add: stepLogs_def logInto_new_step[OF t None])
  next
    case (Some j)
    from findIndex_Some[OF Some] have j: "j < length (n_steps n)" "s_id (n_steps n ! j) = sid"
      by auto
    let ?steps = "(n_steps n)[j := (n_steps n ! j)\<lparr> s_logs := s_logs (n_steps n ! j) @ [L] \<rparr>]"
    have "map s_id ?steps = map s_id (n_steps n)"
      using j by (simp add: map_update_same)
    from findIndex_key[OF this, of sid] Some
    have "findIndex (\<lambda>x. s_id x = sid) ?steps = Some j" by simp
    with Some j show ?thesis
      by (simp add: stepLogs_def logInto_old_step[OF t Some])
  qed
qed

text \<open>The node that \<open>addToTimeline\<close> works on: the one found, or the one it appends.\<close>

lemma addToTimeline_at_found:
  assumes "findIndex (\<lambda>n. n_id n = or_else iid ''SYSTEM'') prev = Some i"
  shows "addToTimeline L iid sid prev ! i = logInto L sid (prev ! i)"
    and "map n_id (addToTimeline L iid sid prev) = map n_id prev"
proof -
  from findIndex_Some[OF assms] have i: "i < length prev" "n_id (prev ! i) = or_else iid ''SYSTEM''"
    by auto
  then show "addToTimeline L iid sid prev ! i = logInto L sid (prev ! i)"
    by (simp add: addToTimeline_found[OF assms])
  from i show "map n_id (addToTimeline L iid sid prev) = map n_id prev"
    by (simp add: addToTimeline_found[OF assms] map_update_same)
qed

lemma addToTimeline_at_new:
  assumes "findIndex (\<lambda>n. n_id n = or_else iid ''SYSTEM'') prev = None"
  shows "last (addToTimeline L iid sid prev) =
      logInto L sid \<lparr> n_id = or_else iid ''SYSTEM'', n_timestamp = l_timestamp L,
                 n_title = (if or_else iid ''SYSTEM'' = ''SYSTEM'' then ''System Events''
                            else ''Active Task''),
                 n_steps = [], n_plan = None, n_logs = [] \<rparr>"
    and "map n_id (addToTimeline L iid sid prev) = map n_id prev @ [or_else iid ''SYSTEM'']"
    and "or_else iid ''SYSTEM'' \<notin> set (map n_id prev)"
proof -
  show "last (addToTimeline L iid sid prev) =
      logInto L sid \<lparr> n_id = or_else iid ''SYSTEM'', n_timestamp = l_timestamp L,
                 n_title = (if or_else iid ''SYSTEM'' = ''SYSTEM'' then ''System Events''
                            else ''Active Task''),
                 n_steps = [], n_plan = None, n_logs = [] \<rparr>"
    by (simp add: addToTimeline_new[OF assms])
  show "map n_id (addToTimeline L iid sid prev) = map n_id prev @ [or_else iid ''SYSTEM'']"
    by (simp add: addToTimeline_new[OF assms])
  from assms show "or_else iid ''SYSTEM'' \<notin> set (map n_id prev)"
    by (auto simp: findIndex_None)
qed

lemma addToTimeline_effect:
  "case findIndex (\<lambda>n. n_id n = or_else iid ''SYSTEM'') prev of
     Some i \<Rightarrow>
       map n_id (addToTimeline L iid sid prev) = map n_id prev
       \<and> (if truthy sid
           then stepLogs sid (addToTimeline L iid sid prev ! i) = stepLogs sid (prev ! i) @ [L]
              \<and> n_logs (addToTimeline L iid sid prev ! i) = n_logs (prev ! i)
           else n_logs (addToTimeline L iid sid prev ! i) = n_logs (prev ! i) @ [L])
   | None \<Rightarrow>
       or_else iid ''SYSTEM'' \<notin> set (map n_id prev)
       \<and> map n_id (addToTimeline L iid sid prev) = map n_id prev @ [or_else iid ''SYSTEM'']
       \<and> (if truthy sid
           then stepLogs sid (last (addToTimeline L iid sid prev)) = [L]
              \<and> n_logs (last (addToTimeline L iid sid prev)) = []
           else n_logs (last (addToTimeline L iid sid prev)) = [L])"
proof (cases "findIndex (\<lambda>n. n_id n = or_else iid ''SYSTEM'') prev")
  case None
  have "stepLogs sid \<lparr> n_id = a, n_timestamp = b, n_title = c, n_steps = [], n_plan = None,
      n_logs = [] \<rparr> = []" for a b c
    by (simp add: stepLogs_def)
  with None addToTimeline_at_new(1,2)[OF None, of L sid] addToTimeline_at_new(3)[OF None]
  show ?thesis
    by (simp add: logInto_logs)
next
  case (Some i)
  with addToTimeline_at_found[OF Some, of L sid] show ?thesis
    by (simp add: logInto_logs)
qed

text \<open>\<open>updateTimelinePlan\<close> and \<open>updateStepStatusInTimeline\<close> keep the logs.\<close>

lemma updateTimelinePlan_logs:
  "map n_logs (updateTimelinePlan plan iid prev) = map n_logs prev"
  by (auto simp: updateTimelinePlan_def Let_def map_update_same dest: findIndex_Some
      split: option.splits)

lemma updateStepStatusInTimeline_logs:
  assumes "i < length prev"
  shows "n_logs (updateStepStatusInTimeline sid st iid prev ! i) = n_logs (prev ! i)"
    and "stepLogs t (updateStepStatusInTimeline sid st iid prev ! i) = stepLogs t (prev ! i)"
proof -
  show "n_logs (updateStepStatusInTimeline sid st iid prev ! i) = n_logs (prev ! i)"
    using assms by (auto simp: updateStepStatusInTimeline_def split: option.splits)
  let ?U = "updateStepStatusInTimeline sid st iid prev"
  from findIndex_key[OF updateStepStatusInTimeline_node(3)[OF assms, of sid st iid], of t]
  have f: "findIndex (\<lambda>x. s_id x = t) (n_steps (?U ! i))
      = findIndex (\<lambda>x. s_id x = t) (n_steps (prev ! i))" .
  show "stepLogs t (?U ! i) = stepLogs t (prev ! i)"
  proof (cases "findIndex (\<lambda>x. s_id x = t) (n_steps (prev ! i))")
    case None
    with f show ?thesis by (simp add: stepLogs_def)
  next
    case (Some j)
    from findIndex_Some[OF Some] have "j < length (n_steps (prev ! i))" by simp
    from updateStepStatusInTimeline_step(3)[OF assms this, of sid st iid] f Some
    show ?thesis by (simp add: stepLogs_def)
  qed
qed

lemma onMessage_effect:
  assumes "onMessage k m s = Inr s'" "timelineEntry k m = Some (L, iid, sid)"
  shows "case findIndex (\<lambda>n. n_id n = or_else iid ''SYSTEM'') (timeline s) of
     Some i \<Rightarrow>
       map n_id (timeline s') = map n_id (timeline s)
       \<and> (if truthy sid
           then stepLogs sid (timeline s' ! i) = stepLogs sid (timeline s ! i) @ [L]
              \<and> n_logs (timeline s' ! i) = n_logs (timeline s ! i)
           else n_logs (timeline s' ! i) = n_logs (timeline s ! i) @ [L])
   | None \<Rightarrow>
       or_else iid ''SYSTEM'' \<notin> set (map n_id (timeline s))
       \<and> map n_id (timeline s') = map n_id (timeline s) @ [or_else iid ''SYSTEM'']
       \<and> (if truthy sid
           then stepLogs sid (last (timeline s')) = [L] \<and> n_logs (last (timeline s')) = []
           else n_logs (last (timeline s')) = [L])"
proof -
  let ?f = "findIndex (\<lambda>n. n_id n = or_else iid ''SYSTEM'')"
  from onMessage_entry[OF assms(1)] assms(2)
  consider (plain) "timeline s' = addToTimeline L iid sid (timeline s)"
    | (plan) pl where "\<not> truthy sid" "timeline s' =
        updateTimelinePlan pl (m_interaction_id m) (addToTimeline L iid sid (timeline s))"
    | (step) st where "truthy sid" "timeline s' =
        addToTimeline L iid sid (updateStepStatusInTimeline sid st iid (timeline s))"
    by blast
  then show ?thesis
  proof cases
    case plain
    show ?thesis unfolding plain by (rule addToTimeline_effect)
  next
    case plan
    let ?A = "addToTimeline L iid sid (timeline s)"
    have ids: "map n_id (timeline s') = map n_id ?A"
      using plan(2) by (simp add: updateTimelinePlan_ids)
    have logs: "map n_logs (timeline s') = map n_logs ?A"
      using plan(2) by (simp add: updateTimelinePlan_logs)
    then have len: "length (timeline s') = length ?A"
      by (metis length_map)
    show ?thesis
    proof (cases "?f (timeline s)")
      case None
      with addToTimeline_effect[of iid "timeline s" L sid] plan(1)
      have a: "or_else iid ''SYSTEM'' \<notin> set (map n_id (timeline s))"
        "map n_id ?A = map n_id (timeline s) @ [or_else iid ''SYSTEM'']"
        "n_logs (last ?A) = [L]"
        by simp_all
      from a(2) have ne: "?A \<noteq> []" by auto
      with len have ne': "timeline s' \<noteq> []" by auto
      have "n_logs (last (timeline s')) = last (map n_logs (timeline s'))"
        using ne' by (simp add: last_map)
      also have "\<dots> = n_logs (last ?A)" using ne logs by (simp add: last_map)
      finally have "n_logs (last (timeline s')) = [L]" using a(3) by simp
      with None a ids plan(1) show ?thesis by simp
    next
      case (Some i)
      with addToTimeline_effect[of iid "timeline s" L sid] plan(1)
      have a: "map n_id ?A = map n_id (timeline s)"
        "n_logs (?A ! i) = n_logs (timeline s ! i) @ [L]"
        by simp_all
      from findIndex_Some[OF Some] have "i < length (timeline s)" by simp
      with a(1) have i: "i < length ?A" by (metis length_map)
      have "n_logs (timeline s' ! i) = map n_logs (timeline s') ! i"
        using i len by simp
      also have "\<dots> = n_logs (?A ! i)" using i logs by simp
      finally have "n_logs (timeline s' ! i) = n_logs (timeline s ! i) @ [L]" using a(2) by simp
      with Some a ids plan(1) show ?thesis by simp
    qed
  next
    case step
    let ?U = "updateStepStatusInTimeline sid st iid (timeline s)"
    have ids: "map n_id ?U = map n_id (timeline s)"
      by (rule updateStepStatusInTimeline_ids)
    from findIndex_key[OF ids, of "or_else iid ''SYSTEM''"]
    have f: "?f ?U = ?f (timeline s)" .
    show ?thesis
    proof (cases "?f (timeline s)")
      case None
      with addToTimeline_effect[of iid ?U L sid] f ids step show ?thesis by simp
    next
      case (Some i)
      from findIndex_Some[OF Some] have i: "i < length (timeline s)" by simp
      from Some addToTimeline_effect[of iid ?U L sid] f ids step
        updateStepStatusInTimeline_logs(1)[OF i, of sid st iid]
        updateStepStatusInTimeline_logs(2)[OF i, of sid sid st iid]
      show ?thesis by simp
    qed
  qed
qed

lemma onMessage_distinct:
  assumes "onMessage k m s = Inr s'" "distinct (map n_id (timeline s))"
  shows "distinct (map n_id (timeline s'))"
proof (cases "timelineEntry k m")
  case None
  with onMessage_entry[OF assms(1)] assms(2) show ?thesis by simp
next
  case (Some e)
  obtain L iid sid where e: "e = (L, iid, sid)" by (cases e)
  from onMessage_effect[OF assms(1) Some[unfolded e]] assms(2) show ?thesis
    by (cases "findIndex (\<lambda>n. n_id n = or_else iid ''SYSTEM'') (timeline s)") auto
qed

lemma onMessages_distinct:
  "onMessages ms s = Inr s' \<Longrightarrow> distinct (map n_id (timeline s))
     \<Longrightarrow> distinct (map n_id (timeline s'))"
proof (induction ms arbitrary: s)
  case Nil
  then show ?case by simp
next
  case (Cons a ms)
  obtain k m where a: "a = (k, m)" by (cases a)
  from Cons.prems(1) a obtain s1 where s1: "onMessage k m s = Inr s1" "onMessages ms s1 = Inr s'"
    by (auto split: sum.splits)
  from Cons.IH[OF s1(2) onMessage_distinct[OF s1(1) Cons.prems(2)]] show ?case .
qed

text \<open>
  Claim C5. After every run of messages from the initial state the Interaction ids of
  the timeline are pairwise distinct, and they stay so after one more message. A message
  for which the handler makes no log entry leaves the timeline as it is. Otherwise the
  entry goes to the Interaction of the event's \<open>interaction_id\<close> (\<open>SYSTEM\<close> when it
  has none, and for \<open>system_status\<close>). When a node of that id exists, no node is created
  and the existing node is the one changed: the entry is appended to the logs of its step
  \<open>step_id\<close> when the event names a step, the step being created in that node if
  need be, and to the node's own logs otherwise. When no node of that id exists, one node
  of that id is appended, and it holds the entry.
\<close>

theorem interaction_ids_unique:
  assumes "onMessages ms initial = Inr s" "onMessage k m s = Inr s'"
  shows "distinct (map n_id (timeline s)) \<and> distinct (map n_id (timeline s'))
     \<and> (timelineEntry k m = None \<longrightarrow> timeline s' = timeline s)
     \<and> (\<forall>L iid sid. timelineEntry k m = Some (L, iid, sid) \<longrightarrow>
          (case findIndex (\<lambda>n. n_id n = or_else iid ''SYSTEM'') (timeline s) of
             Some i \<Rightarrow>
               map n_id (timeline s') = map n_id (timeline s)
               \<and> (if truthy sid
                   then stepLogs sid (timeline s' ! i) = stepLogs sid (timeline s ! i) @ [L]
                      \<and> n_logs (timeline s' ! i) = n_logs (timeline s ! i)
                   else n_logs (timeline s' ! i) = n_logs (timeline s ! i) @ [L])
           | None \<Rightarrow>
               or_else iid ''SYSTEM'' \<notin> set (map n_id (timeline s))
               \<and> map n_id (timeline s') = map n_id (timeline s) @ [or_else iid ''SYSTEM'']
               \<and> (if truthy sid
                   then stepLogs sid (last (timeline s')) = [L] \<and> n_logs (last (timeline s')) = []
                   else n_logs (last (timeline s')) = [L])))"
proof (intro conjI allI impI)
  have "distinct (map n_id (timeline initial))" by (simp add: initial_def)
  from onMessages_distinct[OF assms(1) this]
  show d: "distinct (map n_id (timeline s))" .
  from onMessage_distinct[OF assms(2) d] show "distinct (map n_id (timeline s'))" .
  show "timeline s' = timeline s" if "timelineEntry k m = None"
    using onMessage_entry[OF assms(2)] that by simp
  fix L iid sid
  assume "timelineEntry k m = Some (L, iid, sid)"
  from onMessage_effect[OF assms(2) this]
  show "case findIndex (\<lambda>n. n_id n = or_else iid ''SYSTEM'') (timeline s) of
             Some i \<Rightarrow>
               map n_id (timeline s') = map n_id (timeline s)
               \<and> (if truthy sid
                   then stepLogs sid (timeline s' ! i) = stepLogs sid (timeline s ! i) @ [L]
                      \<and> n_logs (timeline s' ! i) = n_logs (timeline s ! i)
                   else n_logs (timeline s' ! i) = n_logs (timeline s ! i) @ [L])
           | None \<Rightarrow>
               or_else iid ''SYSTEM'' \<notin> set (map n_id (timeline s))
               \<and> map n_id (timeline s') = map n_id (timeline s) @ [or_else iid ''SYSTEM'']
               \<and> (if truthy sid
                   then stepLogs sid (last (timeline s')) = [L] \<and> n_logs (last (timeline s')) = []
                   else n_logs (last (timeline s')) = [L])" .
qed

theorem interaction_ids_unique_witness:
  "onMessages [(clock1, update_plan_G)] initial = Inr session_G
   \<and> onMessage clock2 update_step_1_done session_G = Inr session_G_done
   \<and> timelineEntry clock2 update_step_1_done =
       Some (logEntry clock2 ''STEP_UPDATE'' (PayloadOf (m_payload update_step_1_done)),
             m_interaction_id update_step_1_done, Some ''1'')
   \<and> findIndex (\<lambda>n. n_id n = or_else (m_interaction_id update_step_1_done) ''SYSTEM'')
         (timeline session_G) = Some 0
   \<and> truthy (Some ''1'')
   \<and> distinct (map n_id (timeline session_G)) \<and> distinct (map n_id (timeline session_G_done))
   \<and> map n_id (timeline session_G_done) = map n_id (timeline session_G)
   \<and> stepLogs (Some ''1'') (timeline session_G ! 0) = []
   \<and> stepLogs (Some ''1'') (timeline session_G_done ! 0) =
       [logEntry clock2 ''STEP_UPDATE'' (PayloadOf (m_payload update_step_1_done))]
   \<and> n_logs (timeline session_G_done ! 0) = n_logs (timeline session_G ! 0)
   \<and> map n_id (timeline session_G_done) = [''SYSTEM'']"
proof -
  let ?L = "logEntry clock2 ''STEP_UPDATE'' (PayloadOf (m_payload update_step_1_done))"
  have e: "timelineEntry clock2 update_step_1_done =
      Some (?L, m_interaction_id update_step_1_done, Some ''1'')"
    by (simp add: timelineEntry_def update_step_1_done_def msg_def obj_def truthy_def)
  have f: "findIndex (\<lambda>n. n_id n = or_else (m_interaction_id update_step_1_done) ''SYSTEM'')
      (timeline session_G) = Some 0"
    by (simp add: session_G_def initial_def update_step_1_done_def msg_def or_else_def)
  have t: "truthy (Some ''1'')" by (simp add: truthy_def)
  have z: "stepLogs (Some ''1'') (timeline session_G ! 0) = []"
    by (simp add: stepLogs_def session_G_def initial_def)
  have ids: "map n_id (timeline session_G_done) = [''SYSTEM'']"
    by (simp add: session_G_done_def initial_def)
  note u = interaction_ids_unique[OF session_G_reached session_G_done_reached]
  note c = u[THEN conjunct2, THEN conjunct2, THEN conjunct2, rule_format, OF e,
      unfolded f option.case]
  from c t z have "map n_id (timeline session_G_done) = map n_id (timeline session_G)
      \<and> stepLogs (Some ''1'') (timeline session_G_done ! 0) = [?L]
      \<and> n_logs (timeline session_G_done ! 0) = n_logs (timeline session_G ! 0)"
    by simp
  moreover from u have "distinct (map n_id (timeline session_G))"
    "distinct (map n_id (timeline session_G_done))"
    by blast+
  ultimately show ?thesis
    using session_G_reached session_G_done_reached e f t z ids by blast
qed

subsection \<open>Reconciling a plan\<close>

lemma syncStep_fields:
  "s_id (syncStep existing ps) = ps_id ps"
  "s_title (syncStep existing ps) = ps_title ps"
  "s_status (syncStep existing ps) = ps_status ps"
  "s_logs (syncStep existing ps) =
     (case find (\<lambda>es. s_id es = ps_id ps) existing of Some es \<Rightarrow> s_logs es | None \<Rightarrow> [])"
  by (auto simp: syncStep_def dest: find_Some_first split: option.splits)

lemma updateTimelinePlan_found:
  assumes "findIndex (\<lambda>n. n_id n = t) prev = Some i" "or_else iid (n_id (last prev)) = t"
  shows "updateTimelinePlan (Some pl) iid prev =
     prev[i := (prev ! i)\<lparr>
        n_title := ''Task: '' @ or_else (p_refined_goal pl) ''Unknown'',
        n_plan := Some pl,
        n_steps := map (syncStep (n_steps (prev ! i)))
                     (case p_steps pl of None \<Rightarrow> [] | Some ss \<Rightarrow> ss) \<rparr>]"
proof -
  from assms(1) have "prev \<noteq> []" by auto
  then show ?thesis using assms by (simp add: updateTimelinePlan_def Let_def)
qed

text \<open>A log entry without a step id, for a node that exists, touches that node's logs only.\<close>

lemma addToTimeline_log_only:
  assumes "or_else iid ''SYSTEM'' \<in> set (map n_id prev)"
  shows "\<exists>k < length prev. addToTimeline log iid None prev =
      prev[k := (prev ! k)\<lparr> n_logs := n_logs (prev ! k) @ [log] \<rparr>]"
proof (cases "findIndex (\<lambda>n. n_id n = or_else iid ''SYSTEM'') prev")
  case None
  with assms show ?thesis by (auto simp: findIndex_None)
next
  case (Some k)
  from findIndex_Some[OF Some] have "k < length prev" by simp
  then show ?thesis
    by (auto simp: addToTimeline_found[OF Some] logInto_no_step truthy_def)
qed

text \<open>
  Claim C9. Take an \<open>update_plan\<close> command whose plan goes to an Interaction that
  exists: the one named by the event's \<open>interaction_id\<close>, or without one the
  Interaction of the id of the last node, the log entry of the event finding its
  \<open>SYSTEM\<close> node in place. The Interaction's steps become one step per step of the
  incoming plan, in the plan's order, with the plan's id, title and status. A step whose
  id the Interaction already had keeps the logs of that existing step (of the first one,
  should several share the id); a step whose id is new has no logs.
\<close>

theorem update_plan_reconciles_steps:
  assumes "m_type m = ''command''" "m_command m = Some ''update_plan''"
    "m_payload m = Some pl" "p_steps pl = Some pss"
    "truthy (m_interaction_id m) \<or> ''SYSTEM'' \<in> set (map n_id (timeline s))"
    "timeline s \<noteq> []"
    "findIndex (\<lambda>n. n_id n = or_else (m_interaction_id m) (n_id (last (timeline s))))
       (timeline s) = Some i"
  shows "\<exists>s'. onMessage k m s = Inr s'
     \<and> length (timeline s') = length (timeline s)
     \<and> n_id (timeline s' ! i) = n_id (timeline s ! i)
     \<and> n_plan (timeline s' ! i) = Some pl
     \<and> length (n_steps (timeline s' ! i)) = length pss
     \<and> (\<forall>j < length pss.
           s_id (n_steps (timeline s' ! i) ! j) = ps_id (pss ! j)
         \<and> s_title (n_steps (timeline s' ! i) ! j) = ps_title (pss ! j)
         \<and> s_status (n_steps (timeline s' ! i) ! j) = ps_status (pss ! j)
         \<and> s_logs (n_steps (timeline s' ! i) ! j) =
             (case find (\<lambda>es. s_id es = ps_id (pss ! j)) (n_steps (timeline s ! i)) of
                Some es \<Rightarrow> s_logs es
              | None \<Rightarrow> []))"
proof -
  let ?iid = "m_interaction_id m" and ?T0 = "timeline s"
  let ?t = "or_else ?iid (n_id (last ?T0))"
  let ?log = "logEntry k ''PLAN_UPDATE'' (PayloadOf (m_payload m))"
  let ?tl1 = "addToTimeline ?log ?iid None ?T0"
  from findIndex_Some[OF assms(7)] have i: "i < length ?T0" "n_id (?T0 ! i) = ?t"
    by auto
  have present: "or_else ?iid ''SYSTEM'' \<in> set (map n_id ?T0)"
  proof (cases "truthy ?iid")
    case True
    then have "or_else ?iid ''SYSTEM'' = ?t"
      by (auto simp: truthy_def or_else_def split: option.splits)
    with i show ?thesis by (metis length_map nth_map nth_mem)
  next
    case False
    with assms(5) have "''SYSTEM'' \<in> set (map n_id ?T0)" by simp
    moreover from False have "or_else ?iid ''SYSTEM'' = ''SYSTEM''"
      by (auto simp: truthy_def or_else_def split: option.splits)
    ultimately show ?thesis by simp
  qed
  from addToTimeline_log_only[OF present, of ?log] obtain a where
    a: "a < length ?T0" "?tl1 = ?T0[a := (?T0 ! a)\<lparr> n_logs := n_logs (?T0 ! a) @ [?log] \<rparr>]"
    by blast
  have ids1: "map n_id ?tl1 = map n_id ?T0"
    unfolding a(2) using a(1) by (simp add: map_update_same)
  have len1: "length ?tl1 = length ?T0" unfolding a(2) by simp
  have n1: "n_steps (?tl1 ! i) = n_steps (?T0 ! i)" "n_id (?tl1 ! i) = n_id (?T0 ! i)"
    unfolding a(2) using i(1) a(1) by (auto simp: nth_list_update)
  have ne1: "?tl1 \<noteq> []" using len1 assms(6) by auto
  have "last (map n_id ?tl1) = last (map n_id ?T0)" using ids1 by simp
  then have last1: "n_id (last ?tl1) = n_id (last ?T0)"
    using ne1 assms(6) by (simp add: last_map)
  from findIndex_key[OF ids1, of ?t] assms(7)
  have f1: "findIndex (\<lambda>n. n_id n = ?t) ?tl1 = Some i" by simp
  have t1: "or_else ?iid (n_id (last ?tl1)) = ?t" using last1 by simp
  let ?tl2 = "updateTimelinePlan (Some pl) ?iid ?tl1"
  have tl2: "?tl2 = ?tl1[i := (?tl1 ! i)\<lparr>
        n_title := ''Task: '' @ or_else (p_refined_goal pl) ''Unknown'',
        n_plan := Some pl,
        n_steps := map (syncStep (n_steps (?T0 ! i))) pss \<rparr>]"
    using updateTimelinePlan_found[OF f1 t1, of pl] assms(4) n1 by simp
  have node: "?tl2 ! i = (?tl1 ! i)\<lparr>
        n_title := ''Task: '' @ or_else (p_refined_goal pl) ''Unknown'',
        n_plan := Some pl,
        n_steps := map (syncStep (n_steps (?T0 ! i))) pss \<rparr>"
    unfolding tl2 using i len1 by simp
  have r: "onMessage k m s = Inr (s\<lparr> currentPlan := m_payload m, timeline := ?tl2 \<rparr>)"
    using assms(1,2,3) by (simp add: onMessage_def onCommand_def)
  have len2: "length ?tl2 = length ?T0" unfolding tl2 using len1 by simp
  show ?thesis
    unfolding r using len2 node n1
    by (simp add: syncStep_fields)
qed

theorem update_plan_reconciles_steps_witness:
  "m_type update_plan_t1 = ''command'' \<and> m_command update_plan_t1 = Some ''update_plan''
   \<and> m_payload update_plan_t1 = Some plan_G
   \<and> p_steps plan_G = Some [\<lparr> ps_id = Some ''1'', ps_title = Some ''T1'', ps_description = None,
                               ps_status = Some ''pending'' \<rparr>]
   \<and> (truthy (m_interaction_id update_plan_t1) \<or> ''SYSTEM'' \<in> set (map n_id (timeline session_t1)))
   \<and> timeline session_t1 \<noteq> []
   \<and> findIndex (\<lambda>n. n_id n = or_else (m_interaction_id update_plan_t1)
                                  (n_id (last (timeline session_t1))))
         (timeline session_t1) = Some 0
   \<and> onMessage clock1 debug_t1 initial = Inr session_t1
   \<and> (\<exists>s'. onMessage clock2 update_plan_t1 session_t1 = Inr s'
         \<and> length (n_steps (timeline s' ! 0)) = 1
         \<and> s_id (n_steps (timeline s' ! 0) ! 0) = Some ''1''
         \<and> s_title (n_steps (timeline s' ! 0) ! 0) = Some ''T1''
         \<and> s_status (n_steps (timeline s' ! 0) ! 0) = Some ''pending''
         \<and> s_logs (n_steps (timeline s' ! 0) ! 0) =
             [\<lparr> l_id = ''10010.1'', l_timestamp = ''10:00:01'', l_type = ''DEBUG'',
                l_category = None, l_payload = DataOf (Some ''{}'') \<rparr>])"
proof -
  let ?pss = "[\<lparr> ps_id = Some ''1'', ps_title = Some ''T1'', ps_description = None,
                  ps_status = Some ''pending'' \<rparr>]"
  have h: "m_type update_plan_t1 = ''command''" "m_command update_plan_t1 = Some ''update_plan''"
    "m_payload update_plan_t1 = Some plan_G" "p_steps plan_G = Some ?pss"
    "truthy (m_interaction_id update_plan_t1) \<or> ''SYSTEM'' \<in> set (map n_id (timeline session_t1))"
    "timeline session_t1 \<noteq> []"
    "findIndex (\<lambda>n. n_id n = or_else (m_interaction_id update_plan_t1)
                                  (n_id (last (timeline session_t1))))
         (timeline session_t1) = Some 0"
    by (simp_all add: update_plan_t1_def update_plan_G_def msg_def plan_G_def obj_def
        session_t1_def initial_def truthy_def or_else_def)
  from update_plan_reconciles_steps[OF h, of clock2]
  obtain s' where s': "onMessage clock2 update_plan_t1 session_t1 = Inr s'"
    "length (n_steps (timeline s' ! 0)) = length ?pss"
    and all: "\<forall>j < length ?pss.
           s_id (n_steps (timeline s' ! 0) ! j) = ps_id (?pss ! j)
         \<and> s_title (n_steps (timeline s' ! 0) ! j) = ps_title (?pss ! j)
         \<and> s_status (n_steps (timeline s' ! 0) ! j) = ps_status (?pss ! j)
         \<and> s_logs (n_steps (timeline s' ! 0) ! j) =
             (case find (\<lambda>es. s_id es = ps_id (?pss ! j)) (n_steps (timeline session_t1 ! 0)) of
                Some es \<Rightarrow> s_logs es
              | None \<Rightarrow> [])"
    by blast
  have st: "n_steps (timeline session_t1 ! 0) =
      [\<lparr> s_id = Some ''1'', s_title = Some ''Step 1'', s_status = Some ''pending'',
         s_logs = [\<lparr> l_id = ''10010.1'', l_timestamp = ''10:00:01'', l_type = ''DEBUG'',
                     l_category = None, l_payload = DataOf (Some ''{}'') \<rparr>] \<rparr>]"
    by (simp add: session_t1_def initial_def)
  from all[rule_format, of 0] s'(2)
  have "length (n_steps (timeline s' ! 0)) = 1
         \<and> s_id (n_steps (timeline s' ! 0) ! 0) = Some ''1''
         \<and> s_title (n_steps (timeline s' ! 0) ! 0) = Some ''T1''
         \<and> s_status (n_steps (timeline s' ! 0) ! 0) = Some ''pending''
         \<and> s_logs (n_steps (timeline s' ! 0) ! 0) =
             [\<lparr> l_id = ''10010.1'', l_timestamp = ''10:00:01'', l_type = ''DEBUG'',
                l_category = None, l_payload = DataOf (Some ''{}'') \<rparr>]"
    by (simp add: st)
  with s'(1) h session_t1_reached show ?thesis by blast
qed

subsection \<open>A step update for an unknown step\<close>

lemma updateStepStatusInTimeline_absent:
  assumes "\<forall>n \<in> set prev. \<forall>x \<in> set (n_steps n). s_id x \<noteq> sid"
  shows "updateStepStatusInTimeline sid st iid prev = prev"
proof -
  have "findIndex (\<lambda>x. s_id x = sid) (n_steps n) = None" if "n \<in> set prev" for n
    using assms that by (simp add: findIndex_None)
  then show ?thesis
    unfolding updateStepStatusInTimeline_def by (intro map_idI) simp
qed

lemma updatePlanStep_absent:
  assumes "\<forall>pl. plan = Some pl \<longrightarrow> (\<exists>ss. p_steps pl = Some ss \<and> (\<forall>x \<in> set ss. ps_id x \<noteq> p_id p))"
  shows "updatePlanStep p plan = Inr plan"
proof (cases plan)
  case None
  then show ?thesis by (simp add: updatePlanStep_def)
next
  case (Some pl)
  with assms obtain ss where ss: "p_steps pl = Some ss" "\<forall>x \<in> set ss. ps_id x \<noteq> p_id p" by blast
  then have "map (\<lambda>s. if ps_id s = p_id p then s\<lparr> ps_status := p_status p \<rparr> else s) ss = ss"
    by (intro map_idI) simp
  with ss(1) have "pl\<lparr> p_steps := Some
      (map (\<lambda>s. if ps_id s = p_id p then s\<lparr> ps_status := p_status p \<rparr> else s) ss) \<rparr> = pl"
    by simp
  then show ?thesis using Some ss(1) by (simp add: updatePlanStep_def)
qed

text \<open>
  Claim C4, as amended. Take \<open>update_step\<close> with a non-empty id \<open>X\<close>, a timeline
  with no step of id \<open>X\<close>, and a current plan that is absent or has a list of steps
  none of which has id \<open>X\<close>. The handler does not raise. It changes no existing
  node or step, no status and no other part of the state, but it records the event: a
  step \<open>X\<close>, titled \<open>Step X\<close> and \<open>pending\<close>, holding one \<open>STEP_UPDATE\<close> log
  entry, is added to the Interaction the event addresses (\<open>SYSTEM\<close> without an
  \<open>interaction_id\<close>), and that Interaction is created at the end of the timeline if
  it does not exist.
\<close>

theorem update_step_unknown_id:
  assumes "m_type m = ''command''" "m_command m = Some ''update_step''"
    "m_payload m = Some p" "p_id p = Some X" "X \<noteq> []"
    "\<forall>n \<in> set (timeline s). \<forall>x \<in> set (n_steps n). s_id x \<noteq> Some X"
    "\<forall>pl. currentPlan s = Some pl \<longrightarrow>
        (\<exists>ss. p_steps pl = Some ss \<and> (\<forall>x \<in> set ss. ps_id x \<noteq> Some X))"
  shows "onMessage k m s =
     Inr (s\<lparr> timeline :=
       (let target = or_else (m_interaction_id m) ''SYSTEM'';
            step = \<lparr> s_id = Some X, s_title = Some (''Step '' @ X), s_status = Some ''pending'',
                     s_logs = [logEntry k ''STEP_UPDATE'' (PayloadOf (Some p))] \<rparr>
        in case findIndex (\<lambda>n. n_id n = target) (timeline s) of
             Some i \<Rightarrow> (timeline s)[i := (timeline s ! i)\<lparr> n_steps := n_steps (timeline s ! i) @ [step] \<rparr>]
           | None \<Rightarrow> timeline s @ [\<lparr> n_id = target, n_timestamp = k_timestamp k,
                 n_title = (if target = ''SYSTEM'' then ''System Events'' else ''Active Task''),
                 n_steps = [step], n_plan = None, n_logs = [] \<rparr>]) \<rparr>)"
proof -
  let ?log = "logEntry k ''STEP_UPDATE'' (PayloadOf (Some p))"
  let ?target = "or_else (m_interaction_id m) ''SYSTEM''"
  have tr: "truthy (Some X)" using assms(5) by (simp add: truthy_def)
  have u: "updateStepStatusInTimeline (Some X) (p_status p) (m_interaction_id m) (timeline s)
      = timeline s"
    by (rule updateStepStatusInTimeline_absent[OF assms(6)])
  have pl: "updatePlanStep p (currentPlan s) = Inr (currentPlan s)"
    by (rule updatePlanStep_absent) (use assms(4,7) in simp)
  have r: "onMessage k m s = Inr (s\<lparr> timeline :=
      addToTimeline ?log (m_interaction_id m) (Some X) (timeline s) \<rparr>)"
    using assms(1-4) tr u pl by (simp add: onMessage_def onCommand_def)
  show ?thesis
  proof (cases "findIndex (\<lambda>n. n_id n = ?target) (timeline s)")
    case None
    have "findIndex (\<lambda>x. s_id x = Some X) [] = None" by simp
    then show ?thesis
      unfolding r addToTimeline_new[OF None] using None
      by (simp add: logInto_new_step[OF tr] to_string_def logEntry_def Let_def)
  next
    case (Some i)
    from findIndex_Some[OF Some] have "timeline s ! i \<in> set (timeline s)" by simp
    with assms(6) have "findIndex (\<lambda>x. s_id x = Some X) (n_steps (timeline s ! i)) = None"
      by (simp add: findIndex_None)
    then show ?thesis
      unfolding r addToTimeline_found[OF Some] using Some
      by (simp add: logInto_new_step[OF tr] to_string_def Let_def)
  qed
qed

theorem update_step_unknown_id_witness:
  "m_type update_step_missing = ''command'' \<and> m_command update_step_missing = Some ''update_step''
   \<and> m_payload update_step_missing = Some (obj\<lparr> p_id := Some ''missing'' \<rparr>)
   \<and> p_id (obj\<lparr> p_id := Some ''missing'' \<rparr>) = Some ''missing'' \<and> ''missing'' \<noteq> []
   \<and> map (map s_id \<circ> n_steps) (timeline session_G) = [[Some ''1'']]
   \<and> map_option (map_option (map ps_id) \<circ> p_steps) (currentPlan session_G) = Some (Some [Some ''1''])
   \<and> onMessage clock2 update_step_missing session_G =
       Inr (session_G\<lparr> timeline :=
         [\<lparr> n_id = ''SYSTEM'', n_timestamp = ''10:00:01'', n_title = ''Task: Unknown'',
            n_steps = [\<lparr> s_id = Some ''1'', s_title = Some ''T1'', s_status = Some ''pending'',
                         s_logs = [] \<rparr>,
                       \<lparr> s_id = Some ''missing'', s_title = Some ''Step missing'',
                         s_status = Some ''pending'',
                         s_logs = [logEntry clock2 ''STEP_UPDATE''
                                     (PayloadOf (Some (obj\<lparr> p_id := Some ''missing'' \<rparr>)))] \<rparr>],
            n_plan = Some plan_G,
            n_logs = [logEntry clock1 ''PLAN_UPDATE'' (PayloadOf (Some plan_G))] \<rparr>] \<rparr>)"
proof -
  let ?p = "obj\<lparr> p_id := Some ''missing'' \<rparr>"
  have h: "m_type update_step_missing = ''command''"
    "m_command update_step_missing = Some ''update_step''"
    "m_payload update_step_missing = Some ?p" "p_id ?p = Some ''missing''" "''missing'' \<noteq> []"
    by (simp_all add: update_step_missing_def msg_def obj_def)
  have a: "\<forall>n \<in> set (timeline session_G). \<forall>x \<in> set (n_steps n). s_id x \<noteq> Some ''missing''"
    by (simp add: session_G_def initial_def)
  have b: "\<forall>pl. currentPlan session_G = Some pl \<longrightarrow>
        (\<exists>ss. p_steps pl = Some ss \<and> (\<forall>x \<in> set ss. ps_id x \<noteq> Some ''missing''))"
    by (simp add: session_G_def initial_def plan_G_def obj_def)
  have f: "findIndex (\<lambda>n. n_id n = or_else (m_interaction_id update_step_missing) ''SYSTEM'')
      (timeline session_G) = Some 0"
    by (simp add: session_G_def initial_def update_step_missing_def msg_def or_else_def)
  have t: "timeline session_G = [\<lparr> n_id = ''SYSTEM'', n_timestamp = ''10:00:01'',
       n_title = ''Task: Unknown'',
       n_steps = [\<lparr> s_id = Some ''1'', s_title = Some ''T1'', s_status = Some ''pending'',
                    s_logs = [] \<rparr>],
       n_plan = Some plan_G,
       n_logs = [logEntry clock1 ''PLAN_UPDATE'' (PayloadOf (Some plan_G))] \<rparr>]"
    by (simp add: session_G_def initial_def)
  have "onMessage clock2 update_step_missing session_G =
       Inr (session_G\<lparr> timeline :=
         [\<lparr> n_id = ''SYSTEM'', n_timestamp = ''10:00:01'', n_title = ''Task: Unknown'',
            n_steps = [\<lparr> s_id = Some ''1'', s_title = Some ''T1'', s_status = Some ''pending'',
                         s_logs = [] \<rparr>,
                       \<lparr> s_id = Some ''missing'', s_title = Some ''Step missing'',
                         s_status = Some ''pending'',
                         s_logs = [logEntry clock2 ''STEP_UPDATE'' (PayloadOf (Some ?p))] \<rparr>],
            n_plan = Some plan_G,
            n_logs = [logEntry clock1 ''PLAN_UPDATE'' (PayloadOf (Some plan_G))] \<rparr>] \<rparr>)"
    unfolding update_step_unknown_id[OF h a b, of clock2] Let_def f
    by (simp add: t)
  moreover have "map (map s_id \<circ> n_steps) (timeline session_G) = [[Some ''1'']]"
    by (simp add: t)
  moreover have "map_option (map_option (map ps_id) \<circ> p_steps) (currentPlan session_G)
      = Some (Some [Some ''1''])"
    by (simp add: session_G_def initial_def plan_G_def obj_def)
  ultimately show ?thesis using h by blast
qed

text \<open>
  The claim as stated fails on the empty session: the state changes.
\<close>

theorem update_step_unknown_id_counterexample:
  "onMessage clock1 update_step_missing initial \<noteq> Inr initial
   \<and> map_sum id timeline (onMessage clock1 update_step_missing initial) =
     Inr [\<lparr> n_id = ''SYSTEM'', n_timestamp = ''10:00:01'', n_title = ''System Events'',
            n_steps = [\<lparr> s_id = Some ''missing'', s_title = Some ''Step missing'',
                         s_status = Some ''pending'',
                         s_logs = [\<lparr> l_id = ''1001'', l_timestamp = ''10:00:01'',
                                     l_type = ''STEP_UPDATE'', l_category = None,
                                     l_payload = PayloadOf (Some (obj\<lparr> p_id := Some ''missing'' \<rparr>)) \<rparr>] \<rparr>],
            n_plan = None, n_logs = [] \<rparr>]"
  by (simp add: onMessage_def onCommand_def update_step_missing_def msg_def obj_def initial_def
      clock1_def truthy_def updatePlanStep_def updateStepStatusInTimeline_def addToTimeline_def
      logInto_def logEntry_def or_else_def to_string_def Let_def)

subsection \<open>Applying a step update twice\<close>







subsection \<open>The scenario of a plan, a step start and a step update\<close>

text \<open>
  Claim C2, as amended. On the empty session the three events leave one Interaction in
  the timeline: \<open>SYSTEM\<close>, with no plan, holding one step of id 1 that is
  \<open>pending\<close> and carries the \<open>STEP_UPDATE\<close> log entry. \<open>plan_created\<close> and
  \<open>step_start\<close> add a plan row and a step row to the message list and nothing to the
  timeline, and the plan row's goal is read from \<open>refined_goal\<close>. When the plan
  arrives as the command \<open>update_plan\<close> instead, the one Interaction stores the plan,
  whose goal is G, and its step 1 ends as \<open>done\<close>.
\<close>

theorem scenario_2:
  "(\<exists>s. onMessages [(k1, plan_created_G), (k2, step_start_1), (k3, update_step_1_done)] initial = Inr s
      \<and> timeline s =
          [\<lparr> n_id = ''SYSTEM'', n_timestamp = k_timestamp k3, n_title = ''System Events'',
              n_steps = [\<lparr> s_id = Some ''1'', s_title = Some ''Step 1'', s_status = Some ''pending'',
                           s_logs = [logEntry k3 ''STEP_UPDATE'' (PayloadOf (m_payload update_step_1_done))] \<rparr>],
              n_plan = None, n_logs = [] \<rparr>]
      \<and> currentPlan s = None
      \<and> map c_row_type (messages s) = [Some ''plan_container'', Some ''step_container'']
      \<and> map c_plan_data (messages s) =
          [Some \<lparr> pd_goal = None, pd_steps = p_steps plan_G, pd_isCollapsed = Some True \<rparr>, None]
      \<and> map c_step_data (messages s) =
          [None, Some \<lparr> sd_id = Some ''1'', sd_title = None, sd_description = None,
                        sd_status = ''in_progress'', sd_isCollapsed = Some False \<rparr>])
   \<and> (\<exists>s. onMessages [(k1, update_plan_G), (k2, step_start_1), (k3, update_step_1_done)] initial = Inr s
      \<and> map n_id (timeline s) = [''SYSTEM'']
      \<and> map n_plan (timeline s) = [Some plan_G]
      \<and> p_goal plan_G = Some ''G''
      \<and> map (map s_id \<circ> n_steps) (timeline s) = [[Some ''1'']]
      \<and> map (map s_status \<circ> n_steps) (timeline s) = [[Some ''done'']])"
  by (simp add: plan_created_G_def step_start_1_def update_plan_G_def update_step_1_done_def
      plan_G_def literal_defs reducer_defs)

theorem scenario_2_witness:
  "\<exists>s. onMessages [(clock1, plan_created_G), (clock2, step_start_1), (clock3, update_step_1_done)]
          initial = Inr s
      \<and> map n_id (timeline s) = [''SYSTEM'']
      \<and> map n_plan (timeline s) = [None]
      \<and> currentPlan s = None"
proof -
  from scenario_2[of clock1 clock2 clock3]
  obtain s where "onMessages [(clock1, plan_created_G), (clock2, step_start_1),
       (clock3, update_step_1_done)] initial = Inr s"
    "timeline s =
          [\<lparr> n_id = ''SYSTEM'', n_timestamp = k_timestamp clock3, n_title = ''System Events'',
              n_steps = [\<lparr> s_id = Some ''1'', s_title = Some ''Step 1'', s_status = Some ''pending'',
                           s_logs = [logEntry clock3 ''STEP_UPDATE'' (PayloadOf (m_payload update_step_1_done))] \<rparr>],
              n_plan = None, n_logs = [] \<rparr>]"
    "currentPlan s = None"
    by blast
  then show ?thesis by simp
qed

text \<open>
  The claim as stated fails: the Interaction has no plan and the step is \<open>pending\<close>.
\<close>

theorem scenario_2_counterexample:
  "map_sum id timeline
     (onMessages [(clock1, plan_created_G), (clock2, step_start_1), (clock3, update_step_1_done)] initial)
   = Inr [\<lparr> n_id = ''SYSTEM'', n_timestamp = ''10:00:03'', n_title = ''System Events'',
             n_steps = [\<lparr> s_id = Some ''1'', s_title = Some ''Step 1'', s_status = Some ''pending'',
                          s_logs = [logEntry clock3 ''STEP_UPDATE'' (PayloadOf (m_payload update_step_1_done))] \<rparr>],
             n_plan = None, n_logs = [] \<rparr>]"
  by (simp add: plan_created_G_def step_start_1_def update_step_1_done_def literal_defs
      reducer_defs clock3_def)

subsection \<open>Transcripts\<close>

text \<open>
  Claim C10. A \<open>transcript\<close> message with a non-empty text leaves the state
  unchanged when the last message of the list is a user message with that text, and
  otherwise appends a user message with that text; nothing else changes.
\<close>

theorem transcript_deduplicated:
  assumes "m_type m = ''transcript''" "m_text m = Some T" "T \<noteq> []"
  shows "onMessage k m s =
     Inr (if messages s \<noteq> [] \<and> c_role (last (messages s)) = ''user''
              \<and> c_text (last (messages s)) = Some T
          then s
          else s\<lparr> messages := messages s @
                 [(chat ''user'')\<lparr> c_text := Some T, c_type := Some ''text'' \<rparr>] \<rparr>)"
  using assms
  by (simp add: onMessage_def transcript_def lastMsg_def truthy_def or_else_def)

theorem transcript_deduplicated_witness:
  "m_type ((msg ''transcript'')\<lparr> m_text := Some ''hello'' \<rparr>) = ''transcript''
   \<and> m_text ((msg ''transcript'')\<lparr> m_text := Some ''hello'' \<rparr>) = Some ''hello''
   \<and> ''hello'' \<noteq> []
   \<and> map_sum id messages (onMessage clock1 ((msg ''transcript'')\<lparr> m_text := Some ''hello'' \<rparr>) initial)
       = Inr [(chat ''user'')\<lparr> c_text := Some ''hello'', c_type := Some ''text'' \<rparr>]
   \<and> map_sum id messages
        (onMessage clock1 ((msg ''transcript'')\<lparr> m_text := Some ''hello'' \<rparr>)
           (initial\<lparr> messages := [(chat ''user'')\<lparr> c_text := Some ''hello'', c_type := Some ''text'' \<rparr>] \<rparr>))
       = Inr [(chat ''user'')\<lparr> c_text := Some ''hello'', c_type := Some ''text'' \<rparr>]"
proof -
  let ?m = "(msg ''transcript'')\<lparr> m_text := Some ''hello'' \<rparr>"
  have h: "m_type ?m = ''transcript''" "m_text ?m = Some ''hello''" "''hello'' \<noteq> []"
    by (simp_all add: msg_def)
  have r: "c_role (chat ''user''\<lparr>c_text := Some ''hello'', c_type := Some ''text''\<rparr>) = ''user''"
    by (simp add: chat_def)
  show ?thesis
    using h transcript_deduplicated[OF h, of clock1 initial]
      transcript_deduplicated[OF h, of clock1 "initial\<lparr> messages :=
        [(chat ''user'')\<lparr> c_text := Some ''hello'', c_type := Some ''text'' \<rparr>] \<rparr>"]
    by (simp add: initial_def r)
qed

section \<open>Properties of the host\<close>




end
